theory Spec2Isabelle
  imports Main
begin

section \<open>Strings and the two regular expressions of the watchdog\<close>

text \<open>
  Python strings are modelled as \<^typ>\<open>string\<close>: lists of characters with code points
  below 256. In that range the Unicode class \<^verbatim>\<open>\d\<close> of Python's \<^verbatim>\<open>re\<close> is exactly
  the ten ASCII digits, and the class \<^verbatim>\<open>\s\<close> (which is also what \<^verbatim>\<open>str.strip()\<close>
  removes) is the set of code points 9-13, 28-32, 133 and 160.
\<close>

definition is_digit :: "char \<Rightarrow> bool" where
  "is_digit c \<longleftrightarrow> c \<in> set ''0123456789''"

definition is_space :: "char \<Rightarrow> bool" where
  "is_space c \<longleftrightarrow>
     (let n = (of_char c :: nat)
      in (9 \<le> n \<and> n \<le> 13) \<or> (28 \<le> n \<and> n \<le> 32) \<or> n = 133 \<or> n = 160)"

definition strip :: "string \<Rightarrow> string" where
  "strip s = rev (dropWhile is_space (rev (dropWhile is_space s)))"

definition startswith :: "string \<Rightarrow> string \<Rightarrow> bool" where
  "startswith s p \<longleftrightarrow> take (length p) s = p"

text \<open>
  Both patterns of the source, \<^verbatim>\<open>(\d+-[\d.]+:\d+\.\d+)\<close> and
  \<^verbatim>\<open>device=([^\s!]+)\<close>, are sequences of two kinds of item: a literal character, and
  a greedy \<^verbatim>\<open>+\<close> over a character class. \<open>match_here\<close> is the backtracking matcher
  anchored at the start of the string: a \<^verbatim>\<open>+\<close> first tries to take one more character
  and only then lets the rest of the pattern continue. It returns the matched text
  (group 0). \<open>re_search\<close> is \<^verbatim>\<open>re.search\<close>: it tries every start position from left
  to right and returns the first match.
\<close>

datatype re_item = Chr char | PlusCls "char \<Rightarrow> bool"

fun match_here :: "re_item list \<Rightarrow> string \<Rightarrow> string option" where
  "match_here [] s = Some []"
| "match_here (Chr c # ps) [] = None"
| "match_here (Chr c # ps) (x # xs) =
     (if x = c then map_option ((#) x) (match_here ps xs) else None)"
| "match_here (PlusCls P # ps) [] = None"
| "match_here (PlusCls P # ps) (x # xs) =
     (if P x
      then (case match_here (PlusCls P # ps) xs of
              Some m \<Rightarrow> Some (x # m)
            | None \<Rightarrow> map_option ((#) x) (match_here ps xs))
      else None)"

fun re_search :: "re_item list \<Rightarrow> string \<Rightarrow> string option" where
  "re_search ps [] = match_here ps []"
| "re_search ps (x # xs) =
     (case match_here ps (x # xs) of
        Some m \<Rightarrow> Some m
      | None \<Rightarrow> re_search ps xs)"

definition BUS_ID_RE :: "re_item list" where
  "BUS_ID_RE =
     [PlusCls is_digit, Chr (CHR ''-''),
      PlusCls (\<lambda>c. is_digit c \<or> c = CHR ''.''), Chr (CHR '':''),
      PlusCls is_digit, Chr (CHR ''.''),
      PlusCls is_digit]"

definition DEVICE_RE :: "re_item list" where
  "DEVICE_RE = map Chr ''device='' @ [PlusCls (\<lambda>c. \<not> is_space c \<and> c \<noteq> CHR ''!'')]"

text \<open>
  The language of a pattern, stated independently of the matcher: the texts that the
  items match one after the other, a \<^verbatim>\<open>+\<close> item matching any non-empty run of its class.
\<close>

fun re_matches :: "re_item list \<Rightarrow> string \<Rightarrow> bool" where
  "re_matches [] m \<longleftrightarrow> m = []"
| "re_matches (Chr c # ps) m \<longleftrightarrow> (\<exists>m'. m = c # m' \<and> re_matches ps m')"
| "re_matches (PlusCls P # ps) m \<longleftrightarrow>
     (\<exists>a b. m = a @ b \<and> a \<noteq> [] \<and> list_all P a \<and> re_matches ps b)"

text \<open>
  A pattern is deterministic when every \<^verbatim>\<open>+\<close> item is last or is followed by a literal
  outside its class: then the run taken by the \<^verbatim>\<open>+\<close> is forced.
\<close>

fun deterministic :: "re_item list \<Rightarrow> bool" where
  "deterministic [] \<longleftrightarrow> True"
| "deterministic (Chr c # ps) \<longleftrightarrow> deterministic ps"
| "deterministic [PlusCls P] \<longleftrightarrow> True"
| "deterministic (PlusCls P # Chr c # ps) \<longleftrightarrow> \<not> P c \<and> deterministic ps"
| "deterministic (PlusCls P # PlusCls Q # ps) \<longleftrightarrow> False"

text \<open>The bus identifier as the specification words it.\<close>

definition is_bus_id :: "string \<Rightarrow> bool" where
  "is_bus_id m \<longleftrightarrow>
     (\<exists>a b c d. m = a @ ''-'' @ b @ '':'' @ c @ ''.'' @ d
        \<and> a \<noteq> [] \<and> list_all is_digit a
        \<and> b \<noteq> [] \<and> list_all (\<lambda>x. is_digit x \<or> x = CHR ''.'') b
        \<and> c \<noteq> [] \<and> list_all is_digit c
        \<and> d \<noteq> [] \<and> list_all is_digit d)"


section \<open>Exceptions, the event trace and the environment\<close>

text \<open>
  Exceptions are values. \<open>oserr\<close> are the subclasses of \<^verbatim>\<open>OSError\<close> that the
  file-system calls and \<^verbatim>\<open>open\<close> raise; \<open>exn\<close> adds the other exception classes that
  the source meets. A handler \<^verbatim>\<open>except (OSError, FileNotFoundError)\<close> catches exactly the
  values \<open>OSError e\<close>, \<^verbatim>\<open>except subprocess.CalledProcessError\<close> exactly the values
  \<open>CalledProcessError rc\<close>, and \<^verbatim>\<open>except Exception\<close> every value of \<open>exn\<close>.
\<close>

datatype oserr = FileNotFoundError | PermissionError | OtherOSError

datatype exn =
  OSError oserr | CalledProcessError int | ConfigParserError | JSONDecodeError | ValueError

text \<open>
  A Python \<^verbatim>\<open>dict\<close> from strings to strings keeps insertion order: an association
  list in which an assignment to a present key replaces the value in place and an
  assignment to a new key appends.
\<close>

type_synonym dict = "(string \<times> string) list"

definition dict_get :: "dict \<Rightarrow> string \<Rightarrow> string option" where
  "dict_get d k = map_of d k"

definition dict_contains :: "dict \<Rightarrow> string \<Rightarrow> bool" where
  "dict_contains d k \<longleftrightarrow> k \<in> set (map fst d)"

fun dict_set :: "string \<Rightarrow> string \<Rightarrow> dict \<Rightarrow> dict" where
  "dict_set k v [] = [(k, v)]"
| "dict_set k v ((k', v') # d) = (if k' = k then (k, v) # d else (k', v') # dict_set k v d)"

text \<open>
  Everything the program does to the outside is recorded, in order, as a list of
  events: the log records (one constructor of \<open>msg\<close> per logging call of the source,
  carrying the values formatted into it; \<open>MsgText\<close> for the constant lines of the
  inspection mode), the calls of \<^verbatim>\<open>save_cache\<close>, the shell commands and the sleeps.
\<close>

datatype level = INFO | WARNING | ERROR

datatype msg =
    MsgFound "string list"
  | MsgErrorParsing exn
  | MsgCouldNotLoadCache exn
  | MsgCouldNotSaveCache exn
  | MsgCouldNotExtract string
  | MsgErrorGettingBusId string exn
  | MsgUnexpectedError string exn
  | MsgMapped string string
  | MsgCouldNotDetect string
  | MsgFromCache string string
  | MsgNoCache string
  | MsgRebinding string
  | MsgDoneRebinding string
  | MsgErrorRebinding string exn
  | MsgStarted
  | MsgNoCameras
  | MsgMonitoring "string list"
  | MsgMissing string string
  | MsgText string
  | MsgNoDevicesFound
  | MsgParsedCount nat
  | MsgNoCamerasMapped
  | MsgMappedCount nat
  | MsgStatus string string bool
  | MsgSymlinkTo string

datatype event = Log level msg | SaveCache dict | Shell string | Sleep nat

text \<open>
  The cache file \<^verbatim>\<open>/tmp/camera_watchdog_cache.json\<close> is the one piece of state the
  program writes: it is absent, or reading it raises (no permission, not JSON), or it
  holds a JSON object of strings.
\<close>

datatype cache_file = Absent | Unreadable exn | Holds dict

text \<open>
  What the program reads from the outside is the environment, fixed during one call of
  \<^verbatim>\<open>build_camera_map\<close> and during one poll cycle:
  \<^item> \<open>ini\<close>: what \<^verbatim>\<open>ConfigParser.read\<close> of \<^verbatim>\<open>/opt/frodobots/teleop.ini\<close> gives, an
    exception or the sections with their items in order, where reading the value of an
    item may itself raise (interpolation);
  \<^item> \<open>path_exists\<close>, \<open>path_islink\<close>, \<open>path_realpath\<close>, \<open>os_stat\<close>: the four
    file-system calls of \<^verbatim>\<open>device_exists\<close>;
  \<^item> \<open>udevadm\<close>: the outcome of \<^verbatim>\<open>udevadm info -q path -n\<close> for a device;
  \<^item> \<open>sh_spawn\<close>: whether a shell can be started for a command line (\<open>None\<close>) or
    starting it raises \<^verbatim>\<open>OSError\<close>;
  \<^item> \<open>sh\<close>: the exit status of a shell command line that was started;
  \<^item> \<open>cache_write\<close>: whether writing the cache file works;
  \<^item> \<open>log_open\<close>: whether the log file \<^verbatim>\<open>/var/log/camera_watchdog.log\<close> can be opened
    (\<open>None\<close>) or opening it raises \<^verbatim>\<open>OSError\<close>.
\<close>

datatype proc = ExecFailed oserr | Exited int string

datatype write_outcome = Written | OpenFailed oserr | DumpFailed oserr

record env =
  ini :: "exn + (string \<times> (string \<times> (exn + string)) list) list"
  path_exists :: "string \<Rightarrow> bool"
  path_islink :: "string \<Rightarrow> bool"
  path_realpath :: "string \<Rightarrow> oserr + string"
  os_stat :: "string \<Rightarrow> oserr + unit"
  udevadm :: "string \<Rightarrow> proc"
  sh_spawn :: "string \<Rightarrow> oserr option"
  sh :: "string \<Rightarrow> int"
  cache_write :: write_outcome
  log_open :: "oserr option"

section \<open>Configuration reader\<close>

text \<open>
  \<^verbatim>\<open>match.group(1)\<close> of \<^verbatim>\<open>device=([^\s!]+)\<close> is the match without its seven literal
  characters.
\<close>

definition device_group1 :: "string \<Rightarrow> string" where
  "device_group1 m = drop (length ''device='') m"

fun scan_items :: "(string \<times> (exn + string)) list \<Rightarrow> string list \<Rightarrow> exn + string list" where
  "scan_items [] devices = Inr devices"
| "scan_items ((key, v) # rest) devices =
     (case v of
        Inl e \<Rightarrow> Inl e
      | Inr val \<Rightarrow>
          if startswith key ''camera''
          then (case re_search DEVICE_RE val of
                  Some m \<Rightarrow> scan_items rest (devices @ [device_group1 m])
                | None \<Rightarrow> scan_items rest devices)
          else scan_items rest devices)"

definition parse_camera_devices_try :: "env \<Rightarrow> exn + string list" where
  "parse_camera_devices_try env =
     (case ini env of
        Inl e \<Rightarrow> Inl e
      | Inr config \<Rightarrow>
          (case map_of config ''plugin'' of
             Some items \<Rightarrow> scan_items items []
           | None \<Rightarrow> Inr []))"

definition parse_camera_devices :: "env \<Rightarrow> string list \<times> event list" where
  "parse_camera_devices env =
     (case parse_camera_devices_try env of
        Inr devices \<Rightarrow> (devices, [Log INFO (MsgFound devices)])
      | Inl e \<Rightarrow> ([], [Log ERROR (MsgErrorParsing e)]))"

section \<open>Identity cache\<close>

definition load_cache :: "cache_file \<Rightarrow> dict \<times> event list" where
  "load_cache cf =
     (case cf of
        Absent \<Rightarrow> ([], [])
      | Holds d \<Rightarrow> (d, [])
      | Unreadable e \<Rightarrow> ([], [Log WARNING (MsgCouldNotLoadCache e)]))"

text \<open>
  \<^verbatim>\<open>open(CACHE_FILE, "w")\<close> truncates the file: when the dump fails after a successful
  open, what is left is not JSON.
\<close>

definition save_cache :: "env \<Rightarrow> dict \<Rightarrow> cache_file \<Rightarrow> cache_file \<times> event list" where
  "save_cache env cache cf =
     (case cache_write env of
        Written \<Rightarrow> (Holds cache, [SaveCache cache])
      | OpenFailed e \<Rightarrow>
          (cf, [SaveCache cache, Log WARNING (MsgCouldNotSaveCache (OSError e))])
      | DumpFailed e \<Rightarrow>
          (Unreadable JSONDecodeError,
           [SaveCache cache, Log WARNING (MsgCouldNotSaveCache (OSError e))]))"

section \<open>Bus-id detection and existence check\<close>

definition get_bus_id_try :: "env \<Rightarrow> string \<Rightarrow> exn + (string option \<times> event list)" where
  "get_bus_id_try env device_path =
     (case udevadm env device_path of
        ExecFailed e \<Rightarrow> Inl (OSError e)
      | Exited rc stdout \<Rightarrow>
          if rc \<noteq> 0 then Inl (CalledProcessError rc)
          else (let path = strip stdout
                in case re_search BUS_ID_RE path of
                     Some m \<Rightarrow> Inr (Some m, [])
                   | None \<Rightarrow> Inr (None, [Log WARNING (MsgCouldNotExtract path)])))"

definition get_bus_id :: "env \<Rightarrow> string \<Rightarrow> string option \<times> event list" where
  "get_bus_id env device_path =
     (case get_bus_id_try env device_path of
        Inr r \<Rightarrow> r
      | Inl (CalledProcessError rc) \<Rightarrow>
          (None, [Log ERROR (MsgErrorGettingBusId device_path (CalledProcessError rc))])
      | Inl e \<Rightarrow> (None, [Log ERROR (MsgUnexpectedError device_path e)]))"

definition stat_probe :: "env \<Rightarrow> string \<Rightarrow> exn + bool" where
  "stat_probe env device_path =
     (case os_stat env device_path of Inl e \<Rightarrow> Inl (OSError e) | Inr _ \<Rightarrow> Inr True)"

definition device_exists_try :: "env \<Rightarrow> string \<Rightarrow> exn + bool" where
  "device_exists_try env device_path =
     (if \<not> path_exists env device_path then Inr False
      else if path_islink env device_path
      then (case path_realpath env device_path of
              Inl e \<Rightarrow> Inl (OSError e)
            | Inr real_path \<Rightarrow>
                if \<not> path_exists env real_path then Inr False
                else stat_probe env device_path)
      else stat_probe env device_path)"

definition device_exists :: "env \<Rightarrow> string \<Rightarrow> exn + bool" where
  "device_exists env device_path =
     (case device_exists_try env device_path of
        Inr b \<Rightarrow> Inr b
      | Inl (OSError e) \<Rightarrow> Inr False
      | Inl e \<Rightarrow> Inl e)"

section \<open>Building the camera map\<close>

record resolver_state =
  camera_map :: dict
  cache :: dict
  cache_updated :: bool

text \<open>The body of the loop over the configured devices.\<close>

definition resolve_device ::
  "env \<Rightarrow> string \<Rightarrow> resolver_state \<Rightarrow> exn + (resolver_state \<times> event list)" where
  "resolve_device env device st =
     (case device_exists env device of
        Inl e \<Rightarrow> Inl e
      | Inr True \<Rightarrow>
          (case get_bus_id env device of
             (Some bus_id, evs) \<Rightarrow>
               if bus_id \<noteq> []
               then (let st1 = st\<lparr>camera_map := dict_set device bus_id (camera_map st)\<rparr>;
                         evs1 = evs @ [Log INFO (MsgMapped device bus_id)]
                     in if dict_get (cache st1) device \<noteq> Some bus_id
                        then Inr (st1\<lparr>cache := dict_set device bus_id (cache st1),
                                      cache_updated := True\<rparr>, evs1)
                        else Inr (st1, evs1))
               else Inr (st, evs @ [Log WARNING (MsgCouldNotDetect device)])
           | (None, evs) \<Rightarrow> Inr (st, evs @ [Log WARNING (MsgCouldNotDetect device)]))
      | Inr False \<Rightarrow>
          (case dict_get (cache st) device of
             Some bus_id \<Rightarrow>
               Inr (st\<lparr>camera_map := dict_set device bus_id (camera_map st)\<rparr>,
                    [Log INFO (MsgFromCache device bus_id)])
           | None \<Rightarrow> Inr (st, [Log WARNING (MsgNoCache device)])))"

fun resolve_all ::
  "env \<Rightarrow> string list \<Rightarrow> resolver_state \<Rightarrow> exn + (resolver_state \<times> event list)" where
  "resolve_all env [] st = Inr (st, [])"
| "resolve_all env (device # rest) st =
     (case resolve_device env device st of
        Inl e \<Rightarrow> Inl e
      | Inr (st1, evs1) \<Rightarrow>
          (case resolve_all env rest st1 of
             Inl e \<Rightarrow> Inl e
           | Inr (st2, evs2) \<Rightarrow> Inr (st2, evs1 @ evs2)))"

definition build_camera_map :: "env \<Rightarrow> cache_file \<Rightarrow> exn + (dict \<times> cache_file \<times> event list)" where
  "build_camera_map env cf =
     (case parse_camera_devices env of (devices, evs_p) \<Rightarrow>
       (case load_cache cf of (cache0, evs_l) \<Rightarrow>
         (case resolve_all env devices
                 \<lparr>camera_map = [], cache = cache0, cache_updated = False\<rparr> of
            Inl e \<Rightarrow> Inl e
          | Inr (st, evs_r) \<Rightarrow>
              if cache_updated st
              then (case save_cache env (cache st) cf of (cf', evs_s) \<Rightarrow>
                      Inr (camera_map st, cf', evs_p @ evs_l @ evs_r @ evs_s))
              else Inr (camera_map st, cf, evs_p @ evs_l @ evs_r))))"


section \<open>Recovery actuator\<close>

definition unbind_cmd :: "string \<Rightarrow> string" where
  "unbind_cmd bus_id =
     ''echo '' @ [CHR 0x22] @ bus_id @ [CHR 0x22]
       @ '' | sudo tee /sys/bus/usb/drivers/uvcvideo/unbind''"

definition bind_cmd :: "string \<Rightarrow> string" where
  "bind_cmd bus_id =
     ''echo '' @ [CHR 0x22] @ bus_id @ [CHR 0x22]
       @ '' | sudo tee /sys/bus/usb/drivers/uvcvideo/bind''"

text \<open>
  \<^verbatim>\<open>subprocess.run(cmd, shell=True, check=...)\<close>: a command line with an embedded NUL
  character raises \<^verbatim>\<open>ValueError\<close>; when no shell can be started the call raises
  \<^verbatim>\<open>OSError\<close>; otherwise the shell runs and gives an exit status, and
  \<^verbatim>\<open>CalledProcessError\<close> is raised only when \<^verbatim>\<open>check\<close> is set and the status is not
  zero.
\<close>

definition subprocess_run_shell :: "env \<Rightarrow> string \<Rightarrow> bool \<Rightarrow> exn + int" where
  "subprocess_run_shell env cmd check =
     (if CHR 0x00 \<in> set cmd then Inl ValueError
      else (case sh_spawn env cmd of
              Some e \<Rightarrow> Inl (OSError e)
            | None \<Rightarrow>
                (let rc = sh env cmd
                 in if check \<and> rc \<noteq> 0 then Inl (CalledProcessError rc) else Inr rc)))"

text \<open>The \<^verbatim>\<open>try\<close> block: its outcome and the events up to it.\<close>

definition rebind_device_try :: "env \<Rightarrow> string \<Rightarrow> (exn + bool) \<times> event list" where
  "rebind_device_try env bus_id =
     (case subprocess_run_shell env (unbind_cmd bus_id) False of
        Inl e \<Rightarrow> (Inl e, [Shell (unbind_cmd bus_id)])
      | Inr _ \<Rightarrow>
          (case subprocess_run_shell env (bind_cmd bus_id) False of
             Inl e \<Rightarrow> (Inl e, [Shell (unbind_cmd bus_id), Sleep 2, Shell (bind_cmd bus_id)])
           | Inr _ \<Rightarrow>
               (Inr True,
                [Shell (unbind_cmd bus_id), Sleep 2, Shell (bind_cmd bus_id), Sleep 3,
                 Log INFO (MsgDoneRebinding bus_id)])))"

definition rebind_device :: "env \<Rightarrow> string \<Rightarrow> exn + (bool \<times> event list)" where
  "rebind_device env bus_id =
     (case rebind_device_try env bus_id of
        (Inr b, evs) \<Rightarrow> Inr (b, Log INFO (MsgRebinding bus_id) # evs)
      | (Inl (CalledProcessError rc), evs) \<Rightarrow>
          Inr (False,
               Log INFO (MsgRebinding bus_id) # evs
                 @ [Log ERROR (MsgErrorRebinding bus_id (CalledProcessError rc))])
      | (Inl e, evs) \<Rightarrow> Inl e)"

section \<open>Watchdog loop and inspection mode\<close>

text \<open>One pass of the \<^verbatim>\<open>for\<close> loop over the camera map inside \<^verbatim>\<open>while True\<close>.\<close>

fun poll_devices :: "env \<Rightarrow> dict \<Rightarrow> exn + event list" where
  "poll_devices env [] = Inr []"
| "poll_devices env ((dev, bus_id) # rest) =
     (case device_exists env dev of
        Inl e \<Rightarrow> Inl e
      | Inr True \<Rightarrow> poll_devices env rest
      | Inr False \<Rightarrow>
          (case rebind_device env bus_id of
             Inl e \<Rightarrow> Inl e
           | Inr (_, evs) \<Rightarrow>
               (case poll_devices env rest of
                  Inl e \<Rightarrow> Inl e
                | Inr evs' \<Rightarrow> Inr (Log WARNING (MsgMissing dev bus_id) # evs @ evs'))))"

text \<open>
  \<^verbatim>\<open>while True\<close> has no exit: the loop runs one cycle per snapshot of the environment
  and ends only by an exception. The first component of the result is \<open>None\<close> when the
  loop is still running after the snapshots are used up, and \<open>Some e\<close> when the
  exception \<open>e\<close> left it; the second is the events so far.
\<close>

fun poll_loop :: "env list \<Rightarrow> dict \<Rightarrow> exn option \<times> event list" where
  "poll_loop [] CAMERA_MAP = (None, [])"
| "poll_loop (env # envs) CAMERA_MAP =
     (case poll_devices env CAMERA_MAP of
        Inl e \<Rightarrow> (Some e, [])
      | Inr evs \<Rightarrow>
          (case poll_loop envs CAMERA_MAP of
             (r, evs') \<Rightarrow> (r, evs @ Sleep 5 # evs')))"

fun status_lines :: "env \<Rightarrow> dict \<Rightarrow> exn + event list" where
  "status_lines env [] = Inr []"
| "status_lines env ((dev, bus_id) # rest) =
     (case device_exists env dev of
        Inl e \<Rightarrow> Inl e
      | Inr exists \<Rightarrow>
          (let lines =
                 (if path_islink env dev
                  then (case path_realpath env dev of
                          Inr real_path \<Rightarrow>
                            [Log INFO (MsgStatus dev bus_id exists),
                             Log INFO (MsgSymlinkTo real_path)]
                        | Inl e \<Rightarrow> [Log INFO (MsgStatus dev bus_id exists)])
                  else [Log INFO (MsgStatus dev bus_id exists)])
           in case status_lines env rest of
                Inl e \<Rightarrow> Inl e
              | Inr evs \<Rightarrow> Inr (lines @ evs)))"

definition test_mode :: "env \<Rightarrow> cache_file \<Rightarrow> exn + (cache_file \<times> event list)" where
  "test_mode env cf =
     (let head1 = [Log INFO (MsgText (replicate 60 (CHR ''=''))),
                   Log INFO (MsgText ''TEST MODE - Camera Watchdog Configuration''),
                   Log INFO (MsgText (replicate 60 (CHR ''=''))),
                   Log INFO (MsgText (CHR 0x0A # ''1. Parsing /opt/frodobots/teleop.ini...''))]
      in case parse_camera_devices env of (devices, evs_p) \<Rightarrow>
           if devices = [] then Inr (cf, head1 @ evs_p @ [Log ERROR MsgNoDevicesFound])
           else (let head2 = [Log INFO (MsgParsedCount (length devices)),
                              Log INFO (MsgText (CHR 0x0A # ''2. Building camera map...''))]
                 in case build_camera_map env cf of
                      Inl e \<Rightarrow> Inl e
                    | Inr (CAMERA_MAP, cf', evs_b) \<Rightarrow>
                        if CAMERA_MAP = []
                        then Inr (cf', head1 @ evs_p @ head2 @ evs_b
                                        @ [Log ERROR MsgNoCamerasMapped])
                        else (case status_lines env CAMERA_MAP of
                                Inl e \<Rightarrow> Inl e
                              | Inr evs_s \<Rightarrow>
                                  Inr (cf', head1 @ evs_p @ head2 @ evs_b
                                     @ [Log INFO (MsgMappedCount (length CAMERA_MAP)),
                                        Log INFO (MsgText (CHR 0x0A # ''3. Current camera status:'')),
                                        Log INFO (MsgText (replicate 60 (CHR ''-'')))]
                                     @ evs_s
                                     @ [Log INFO (MsgText (CHR 0x0A # replicate 60 (CHR ''=''))),
                                        Log INFO (MsgText
                                          ''Test complete! Run without --test to start watchdog.''),
                                        Log INFO (MsgText (replicate 60 (CHR ''='')))]))))"

text \<open>
  \<^verbatim>\<open>setup_logging\<close> builds a \<^verbatim>\<open>logging.FileHandler\<close> for the log file, which opens the
  file at once and raises \<^verbatim>\<open>OSError\<close> when it cannot.
\<close>

definition setup_logging :: "env \<Rightarrow> exn + unit" where
  "setup_logging env = (case log_open env of Some e \<Rightarrow> Inl (OSError e) | None \<Rightarrow> Inr ())"

text \<open>
  \<open>main env envs argv cf\<close>: \<open>env\<close> is the environment at start-up, \<open>envs\<close> the
  snapshots for the poll cycles, \<open>argv\<close> the command line and \<open>cf\<close> the cache file.
  The first component of the result is \<open>None\<close> while the poll loop is running,
  \<open>Some (Inl e)\<close> when an exception ends the process and \<open>Some (Inr ())\<close> when
  \<^verbatim>\<open>main\<close> returns; the others are the cache file and the events at that point.
\<close>

definition main :: "env \<Rightarrow> env list \<Rightarrow> string list \<Rightarrow> cache_file
    \<Rightarrow> (exn + unit) option \<times> cache_file \<times> event list" where
  "main env envs argv cf =
     (case setup_logging env of
        Inl e \<Rightarrow> (Some (Inl e), cf, [])
      | Inr _ \<Rightarrow>
          if ''--test'' \<in> set argv
          then (case test_mode env cf of
                  Inl e \<Rightarrow> (Some (Inl e), cf, [])
                | Inr (cf', evs) \<Rightarrow> (Some (Inr ()), cf', evs))
          else (case build_camera_map env cf of
                  Inl e \<Rightarrow> (Some (Inl e), cf, [Log INFO MsgStarted])
                | Inr (CAMERA_MAP, cf', evs) \<Rightarrow>
                    if CAMERA_MAP = []
                    then (Some (Inr ()), cf',
                          Log INFO MsgStarted # evs @ [Log ERROR MsgNoCameras])
                    else (case poll_loop envs CAMERA_MAP of
                            (r, evs') \<Rightarrow>
                              (map_option Inl r, cf',
                               Log INFO MsgStarted # evs
                                 @ [Log INFO (MsgMonitoring (map fst CAMERA_MAP))] @ evs'))))"

text \<open>The actions that only the poll loop performs: shell commands and sleeps.\<close>

fun poll_action :: "event \<Rightarrow> bool" where
  "poll_action (Shell cmd) = True"
| "poll_action (Sleep n) = True"
| "poll_action (Log l m) = False"
| "poll_action (SaveCache d) = False"

fun is_save :: "event \<Rightarrow> bool" where
  "is_save (SaveCache d) = True"
| "is_save (Shell cmd) = False"
| "is_save (Sleep n) = False"
| "is_save (Log l m) = False"

section \<open>Notions used to state the properties\<close>

text \<open>
  Live detection for a configured path: the device node exists and \<^verbatim>\<open>get_bus_id\<close>
  returned an identifier (a value that the test \<^verbatim>\<open>if bus_id:\<close> accepts).
\<close>

definition detected :: "env \<Rightarrow> string \<Rightarrow> string option" where
  "detected env device =
     (if device_exists env device = Inr True
      then (case fst (get_bus_id env device) of
              Some bus_id \<Rightarrow> if bus_id \<noteq> [] then Some bus_id else None
            | None \<Rightarrow> None)
      else None)"

text \<open>
  A path was attempted when the loop of \<^verbatim>\<open>build_camera_map\<close> logged one of its four
  outcomes for it.
\<close>

definition attempted :: "event list \<Rightarrow> string \<Rightarrow> bool" where
  "attempted evs device \<longleftrightarrow>
     (\<exists>ev \<in> set evs.
        case ev of
          Log l (MsgMapped d b) \<Rightarrow> d = device
        | Log l (MsgCouldNotDetect d) \<Rightarrow> d = device
        | Log l (MsgFromCache d b) \<Rightarrow> d = device
        | Log l (MsgNoCache d) \<Rightarrow> d = device
        | _ \<Rightarrow> False)"

text \<open>The device path that a plugin value configures, as the specification words it.\<close>

definition path_char :: "char \<Rightarrow> bool" where
  "path_char c \<longleftrightarrow> \<not> is_space c \<and> c \<noteq> CHR ''!''"

definition device_token :: "string \<Rightarrow> string \<Rightarrow> bool" where
  "device_token val p \<longleftrightarrow>
     (\<exists>pre post. val = pre @ ''device='' @ p @ post
        \<and> p \<noteq> [] \<and> list_all path_char p
        \<and> (post = [] \<or> \<not> path_char (hd post))
        \<and> (\<forall>pre' c post'. val = pre' @ ''device='' @ c # post' \<and> path_char c
              \<longrightarrow> length pre \<le> length pre'))"

definition extract_device :: "string \<Rightarrow> string option" where
  "extract_device val = map_option device_group1 (re_search DEVICE_RE val)"

text \<open>
  The paths that the items of the plugin section configure, in order: one for every item
  whose key starts with \<^verbatim>\<open>camera\<close> and whose value has a device token.
\<close>

definition configured_paths :: "(string \<times> (exn + string)) list \<Rightarrow> string list" where
  "configured_paths items =
     concat (map (\<lambda>(key, v).
                    case v of
                      Inr val \<Rightarrow>
                        if startswith key ''camera''
                        then (case extract_device val of Some p \<Rightarrow> [p] | None \<Rightarrow> [])
                        else []
                    | Inl e \<Rightarrow> [])
                 items)"

text \<open>
  The membership rule of the camera map as the specification words it: a configured path
  is in the map exactly when live detection succeeded or a cache entry existed.
\<close>

definition membership_as_specified :: "env \<Rightarrow> cache_file \<Rightarrow> string \<Rightarrow> bool" where
  "membership_as_specified env cf device \<longleftrightarrow>
     (case build_camera_map env cf of
        Inr (cm, cf', evs) \<Rightarrow>
          (dict_contains cm device \<longleftrightarrow>
             detected env device \<noteq> None \<or> dict_contains (fst (load_cache cf)) device)
      | Inl e \<Rightarrow> False)"

text \<open>A shell command line can be run: it has no NUL character and a shell starts for it.\<close>

definition spawns :: "env \<Rightarrow> string \<Rightarrow> bool" where
  "spawns env cmd \<longleftrightarrow> CHR 0x00 \<notin> set cmd \<and> sh_spawn env cmd = None"

text \<open>
  The fatal condition as the specification words it: whenever the monitoring mode ends,
  by a return or by an exception, the camera map built at start-up was empty.
\<close>

definition only_fatal_as_specified :: "env \<Rightarrow> env list \<Rightarrow> cache_file \<Rightarrow> bool" where
  "only_fatal_as_specified env envs cf \<longleftrightarrow>
     (fst (main env envs [] cf) \<noteq> None \<longrightarrow>
        (case build_camera_map env cf of
           Inr (cm, cf', evs) \<Rightarrow> cm = []
         | Inl e \<Rightarrow> False))"

section \<open>Example installations\<close>

text \<open>
  The end-to-end example of the specification: two configured paths, \<^verbatim>\<open>/dev/video0\<close>
  present with bus id \<^verbatim>\<open>1-2:1.0\<close>, and \<^verbatim>\<open>/dev/video2\<close> absent with the cache entry
  \<^verbatim>\<open>1-3:1.0\<close>. The plugin section also has an entry that is no camera and a camera
  entry without a device.
\<close>

definition example_ini :: "(string \<times> (string \<times> (exn + string)) list) list" where
  "example_ini =
     [(''plugin'',
       [(''camera1'', Inr ''v4l2src device=/dev/video0 ! videoconvert''),
        (''microphone'', Inr ''alsasrc device=hw:1''),
        (''camera2'', Inr ''v4l2src device=/dev/video2 ! videoconvert''),
        (''camera3'', Inr ''videotestsrc'')])]"

definition example_env :: env where
  "example_env =
     \<lparr>ini = Inr example_ini,
      path_exists = (\<lambda>p. p = ''/dev/video0''),
      path_islink = (\<lambda>p. False),
      path_realpath = (\<lambda>p. Inr p),
      os_stat = (\<lambda>p. if p = ''/dev/video0'' then Inr () else Inl FileNotFoundError),
      udevadm = (\<lambda>p. if p = ''/dev/video0''
                      then Exited 0 (''/devices/pci0000:00/0000:00:14.0/usb1/1-2/1-2:1.0''
                                       @ ''/video4linux/video0'' @ [CHR 0x0A])
                      else Exited 1 []),
      sh_spawn = (\<lambda>cmd. None),
      sh = (\<lambda>cmd. 0),
      cache_write = Written,
      log_open = None\<rparr>"

definition example_cache :: cache_file where
  "example_cache = Holds [(''/dev/video2'', ''1-3:1.0'')]"

text \<open>The node \<^verbatim>\<open>/dev/video0\<close> exists, but \<^verbatim>\<open>udevadm\<close> fails; the cache knows the path.\<close>

definition undetectable_env :: env where
  "undetectable_env = example_env\<lparr>udevadm := (\<lambda>p. Exited 1 [])\<rparr>"

definition stale_cache :: cache_file where
  "stale_cache = Holds [(''/dev/video0'', ''1-2:1.0'')]"

text \<open>Every shell command fails with status 1, as \<^verbatim>\<open>sudo tee\<close> does without permission.\<close>

definition denied_env :: env where
  "denied_env = example_env\<lparr>sh := (\<lambda>cmd. 1)\<rparr>"

text \<open>The configuration file cannot be parsed.\<close>

definition broken_ini_env :: env where
  "broken_ini_env = example_env\<lparr>ini := Inl ConfigParserError\<rparr>"

text \<open>\<^verbatim>\<open>/dev/video0\<close> is a symbolic link to a node that exists.\<close>

definition symlink_env :: env where
  "symlink_env =
     example_env\<lparr>path_exists := (\<lambda>p. p = ''/dev/video0'' \<or> p = ''/dev/video7''),
                 path_islink := (\<lambda>p. p = ''/dev/video0''),
                 path_realpath := (\<lambda>p. if p = ''/dev/video0'' then Inr ''/dev/video7'' else Inr p)\<rparr>"

text \<open>The log file cannot be opened, as for a user who may not write to \<^verbatim>\<open>/var/log\<close>.\<close>

definition no_log_env :: env where
  "no_log_env = example_env\<lparr>log_open := Some PermissionError\<rparr>"

text \<open>No shell can be started, as when the process table is full.\<close>

definition no_shell_env :: env where
  "no_shell_env = example_env\<lparr>sh_spawn := (\<lambda>cmd. Some OtherOSError)\<rparr>"

section \<open>The matcher finds the first match, and the longest one there\<close>

lemma match_here_sound:
  "match_here ps s = Some m \<Longrightarrow> (\<exists>post. s = m @ post) \<and> re_matches ps m"
proof (induction ps s arbitrary: m rule: match_here.induct)
  case (5 P ps x xs)
  show ?case
  proof (cases "match_here (PlusCls P # ps) xs")
    case (Some m1)
    with "5.prems" have px: "P x" and m: "m = x # m1" by (auto split: if_splits)
    from "5.IH"(1)[OF px Some] obtain post a b where
      h: "xs = m1 @ post" "m1 = a @ b" "a \<noteq> []" "list_all P a" "re_matches ps b" by auto
    have "m = (x # a) @ b \<and> x # a \<noteq> [] \<and> list_all P (x # a) \<and> re_matches ps b"
      using h px m by simp
    then have "re_matches (PlusCls P # ps) m" unfolding re_matches.simps by blast
    then show ?thesis using h m by simp
  next
    case None
    with "5.prems" obtain m1 where px: "P x" and m: "m = x # m1" and h: "match_here ps xs = Some m1"
      by (auto split: if_splits)
    from "5.IH"(2)[OF px None h] obtain post where h2: "xs = m1 @ post" "re_matches ps m1" by auto
    have "m = [x] @ m1 \<and> [x] \<noteq> [] \<and> list_all P [x] \<and> re_matches ps m1"
      using h2 px m by simp
    then have "re_matches (PlusCls P # ps) m" unfolding re_matches.simps by blast
    then show ?thesis using h2 m by simp
  qed
qed (auto split: if_splits)

lemma match_here_complete:
  "re_matches ps m \<Longrightarrow> match_here ps (m @ post) \<noteq> None"
proof (induction ps "m @ post" arbitrary: m post rule: match_here.induct)
  case (5 P ps x xs)
  from "5.prems" obtain a b where ab: "m = a @ b" "a \<noteq> []" "list_all P a" "re_matches ps b"
    by auto
  then obtain a' where a: "a = x # a'" using "5.hyps"(3) by (cases a) auto
  with ab have px: "P x" by simp
  have xs: "xs = a' @ b @ post" using "5.hyps"(3) ab a by simp
  show ?case
  proof (cases "match_here (PlusCls P # ps) xs")
    case (Some m1)
    then show ?thesis using px "5.hyps"(3)[symmetric] by simp
  next
    case None
    have "a' = []"
    proof (rule ccontr)
      assume ne: "a' \<noteq> []"
      have "re_matches (PlusCls P # ps) (a' @ b)"
        unfolding re_matches.simps using ne ab a by auto
      from "5.hyps"(1)[OF px _ this, of post] xs None show False by simp
    qed
    then have xb: "xs = b @ post" using xs by simp
    from "5.hyps"(2)[OF px None xb ab(4)] show ?thesis
      using px None xb "5.hyps"(3)[symmetric] by auto
  qed
qed auto

lemma match_here_plus_last:
  "match_here [PlusCls P] s = (if takeWhile P s = [] then None else Some (takeWhile P s))"
  by (induction s) auto

lemma dropWhile_Cons_in:
  "dropWhile P ys = c # r \<Longrightarrow> c \<in> set ys \<and> \<not> P c"
  by (metis dropWhile_eq_Cons_conv in_set_conv_decomp)

lemma match_here_plus_chr:
  assumes "\<not> P c"
  shows "match_here (PlusCls P # Chr c # ps) s =
     (case dropWhile P s of
        [] \<Rightarrow> None
      | y # r \<Rightarrow> if takeWhile P s \<noteq> [] \<and> y = c
                 then map_option (\<lambda>m. takeWhile P s @ c # m) (match_here ps r)
                 else None)"
proof (induction s)
  case Nil
  show ?case by simp
next
  case (Cons x xs)
  show ?case
  proof (cases "P x")
    case False
    then show ?thesis by simp
  next
    case px: True
    let ?R = "case dropWhile P xs of
        [] \<Rightarrow> None
      | y # r \<Rightarrow> if takeWhile P xs \<noteq> [] \<and> y = c
                 then map_option (\<lambda>m. takeWhile P xs @ c # m) (match_here ps r)
                 else None"
    have step: "match_here (PlusCls P # Chr c # ps) (x # xs) =
        (case ?R of Some m \<Rightarrow> Some (x # m)
         | None \<Rightarrow> map_option ((#) x) (match_here (Chr c # ps) xs))"
      using px by (simp only: match_here.simps Cons.IH if_True)
    show ?thesis
    proof (cases xs)
      case Nil
      then show ?thesis unfolding step using px by simp
    next
      case (Cons y ys)
      show ?thesis
      proof (cases "P y")
        case True
        then have "y \<noteq> c" using assms by auto
        then show ?thesis unfolding step using px True Cons
          by (auto split: list.splits option.splits simp: option.map_comp comp_def
                   dest: dropWhile_Cons_in)
      next
        case False
        then show ?thesis unfolding step using px Cons
          by (auto split: list.splits option.splits simp: option.map_comp comp_def)
      qed
    qed
  qed
qed

lemma takeWhile_all_stop:
  "list_all P a \<Longrightarrow> \<not> P c \<Longrightarrow> takeWhile P (a @ c # r) = a \<and> dropWhile P (a @ c # r) = c # r"
  by (induction a) auto

lemma length_le_takeWhile:
  "list_all P a \<Longrightarrow> length a \<le> length (takeWhile P (a @ r))"
  by (induction a) auto

lemma match_here_longest:
  "deterministic ps \<Longrightarrow> re_matches ps m' \<Longrightarrow> match_here ps (m' @ post') = Some m
     \<Longrightarrow> length m' \<le> length m"
proof (induction ps arbitrary: m m' post' rule: deterministic.induct)
  case 1
  then show ?case by simp
next
  case (2 c ps)
  then show ?case by (auto split: if_splits)
next
  case (3 P)
  then show ?case
    by (auto simp: match_here_plus_last length_le_takeWhile split: if_splits)
next
  case (4 P c ps)
  from "4.prems"(2) obtain a b where
    ab: "m' = a @ c # b" "a \<noteq> []" "list_all P a" "re_matches ps b" by auto
  from "4.prems"(1) have npc: "\<not> P c" and det: "deterministic ps" by auto
  have tw: "takeWhile P (m' @ post') = a" "dropWhile P (m' @ post') = c # b @ post'"
    using takeWhile_all_stop[OF ab(3) npc, of "b @ post'"] ab(1) by auto
  from "4.prems"(3) obtain m1 where
    m1: "match_here ps (b @ post') = Some m1" "m = a @ c # m1"
    unfolding match_here_plus_chr[of P c, OF npc] tw using ab(2) by (auto split: if_splits)
  from "4.IH"[OF det ab(4) m1(1)] show ?case using m1(2) ab(1) by simp
next
  case (5 P Q ps)
  then show ?case by simp
qed

lemma re_search_None:
  "re_search ps s = None \<longleftrightarrow> (\<forall>pre m post. s = pre @ m @ post \<longrightarrow> \<not> re_matches ps m)"
proof (induction s)
  case Nil
  show ?case using match_here_sound[of ps "[]"] match_here_complete[of ps "[]" "[]"]
    by (cases "match_here ps []") auto
next
  case (Cons x xs)
  show ?case
  proof
    assume h: "re_search ps (x # xs) = None"
    then have a: "match_here ps (x # xs) = None" and b: "re_search ps xs = None"
      by (auto split: option.splits)
    show "\<forall>pre m post. x # xs = pre @ m @ post \<longrightarrow> \<not> re_matches ps m"
    proof (intro allI impI)
      fix pre m post assume e: "x # xs = pre @ m @ post"
      show "\<not> re_matches ps m"
      proof (cases pre)
        case Nil
        then show ?thesis using match_here_complete[of ps m post] a e by auto
      next
        case (Cons y pre')
        then have "xs = pre' @ m @ post" using e by simp
        then show ?thesis using b Cons.IH by blast
      qed
    qed
  next
    assume h: "\<forall>pre m post. x # xs = pre @ m @ post \<longrightarrow> \<not> re_matches ps m"
    have a: "match_here ps (x # xs) = None"
    proof (cases "match_here ps (x # xs)")
      case (Some m)
      from match_here_sound[OF Some] obtain post where "x # xs = [] @ m @ post" "re_matches ps m"
        by auto
      then show ?thesis using h by blast
    qed simp
    have "\<forall>pre m post. xs = pre @ m @ post \<longrightarrow> \<not> re_matches ps m"
    proof (intro allI impI)
      fix pre m post assume "xs = pre @ m @ post"
      then have "x # xs = (x # pre) @ m @ post" by simp
      then show "\<not> re_matches ps m" using h by blast
    qed
    then have "re_search ps xs = None" using Cons.IH by blast
    then show "re_search ps (x # xs) = None" using a by simp
  qed
qed

lemma re_search_Some:
  "re_search ps s = Some m \<Longrightarrow>
     \<exists>pre post. s = pre @ m @ post \<and> match_here ps (m @ post) = Some m
       \<and> (\<forall>pre' m' post'. s = pre' @ m' @ post' \<and> re_matches ps m'
             \<longrightarrow> length pre \<le> length pre')"
proof (induction s)
  case Nil
  then have "match_here ps [] = Some m" by simp
  moreover from match_here_sound[OF this] have "m = []" by auto
  ultimately show ?case by auto
next
  case (Cons x xs)
  show ?case
  proof (cases "match_here ps (x # xs)")
    case (Some m0)
    then have m0: "m0 = m" using Cons.prems by simp
    from match_here_sound[OF Some] obtain post where "x # xs = m @ post" using m0 by auto
    then have "x # xs = [] @ m @ post \<and> match_here ps (m @ post) = Some m" using Some m0 by simp
    then show ?thesis by (metis list.size(3) le0)
  next
    case None
    then have r: "re_search ps xs = Some m" using Cons.prems by simp
    from Cons.IH[OF r] obtain pre post where
      p: "xs = pre @ m @ post" "match_here ps (m @ post) = Some m"
         "\<forall>pre' m' post'. xs = pre' @ m' @ post' \<and> re_matches ps m' \<longrightarrow> length pre \<le> length pre'"
      by blast
    have "\<forall>pre' m' post'. x # xs = pre' @ m' @ post' \<and> re_matches ps m'
             \<longrightarrow> length (x # pre) \<le> length pre'"
    proof (intro allI impI)
      fix pre' m' post' assume a: "x # xs = pre' @ m' @ post' \<and> re_matches ps m'"
      show "length (x # pre) \<le> length pre'"
      proof (cases pre')
        case Nil
        then show ?thesis using a match_here_complete[of ps m' post'] None by auto
      next
        case (Cons y q)
        then have "xs = q @ m' @ post'" using a by simp
        then have "length pre \<le> length q" using p(3) a by blast
        then show ?thesis using Cons by simp
      qed
    qed
    moreover have "x # xs = (x # pre) @ m @ post" using p(1) by simp
    ultimately show ?thesis using p(2) by blast
  qed
qed

lemma re_matches_PlusI:
  "a \<noteq> [] \<Longrightarrow> list_all P a \<Longrightarrow> re_matches ps b \<Longrightarrow> re_matches (PlusCls P # ps) (a @ b)"
  by auto

lemma re_matches_ChrI: "re_matches ps b \<Longrightarrow> re_matches (Chr c # ps) (c # b)"
  by simp

lemma re_matches_Plus_lastI: "a \<noteq> [] \<Longrightarrow> list_all P a \<Longrightarrow> re_matches [PlusCls P] a"
  by simp

lemma re_matches_BUS_ID_RE: "re_matches BUS_ID_RE m \<longleftrightarrow> is_bus_id m"
proof
  assume "re_matches BUS_ID_RE m"
  then obtain a b c d where "m = a @ ''-'' @ b @ '':'' @ c @ ''.'' @ d"
    "a \<noteq> []" "list_all is_digit a"
    "b \<noteq> []" "list_all (\<lambda>x. is_digit x \<or> x = CHR ''.'') b"
    "c \<noteq> []" "list_all is_digit c" "d \<noteq> []" "list_all is_digit d"
    unfolding BUS_ID_RE_def by auto
  then show "is_bus_id m" unfolding is_bus_id_def by blast
next
  assume "is_bus_id m"
  then obtain a b c d where "m = a @ ''-'' @ b @ '':'' @ c @ ''.'' @ d"
    "a \<noteq> []" "list_all is_digit a"
    "b \<noteq> []" "list_all (\<lambda>x. is_digit x \<or> x = CHR ''.'') b"
    "c \<noteq> []" "list_all is_digit c" "d \<noteq> []" "list_all is_digit d"
    unfolding is_bus_id_def by blast
  then show "re_matches BUS_ID_RE m" unfolding BUS_ID_RE_def
    by (simp del: re_matches.simps
          add: re_matches_PlusI re_matches_ChrI re_matches_Plus_lastI)
qed

lemma deterministic_BUS_ID_RE: "deterministic BUS_ID_RE"
  by (simp add: BUS_ID_RE_def is_digit_def)

text \<open>
  Claim C4. When \<^verbatim>\<open>udevadm\<close> succeeds, \<^verbatim>\<open>get_bus_id\<close> returns what the pattern match
  finds in the stripped output, the canonical device path. For every path, that match is
  nothing exactly when no part of the path has the form digits, \<^verbatim>\<open>-\<close>, digits or dots,
  \<^verbatim>\<open>:\<close>, digits, \<^verbatim>\<open>.\<close>, digits; otherwise it is the first such part of the path: no
  part of that form starts further left, and none that starts at the same place is
  longer.
\<close>

theorem bus_id_search_first_match:
  "(udevadm env device_path = Exited 0 out \<longrightarrow>
      fst (get_bus_id env device_path) = re_search BUS_ID_RE (strip out))
   \<and> (re_search BUS_ID_RE path = None \<longleftrightarrow>
      (\<forall>pre m post. path = pre @ m @ post \<longrightarrow> \<not> is_bus_id m))
   \<and> (\<forall>m. re_search BUS_ID_RE path = Some m \<longrightarrow>
      (\<exists>pre post. path = pre @ m @ post \<and> is_bus_id m
         \<and> (\<forall>pre' m' post'. path = pre' @ m' @ post' \<and> is_bus_id m'
               \<longrightarrow> length pre < length pre'
                   \<or> (length pre = length pre' \<and> length m' \<le> length m))))"
proof (intro conjI allI impI)
  assume "udevadm env device_path = Exited 0 out"
  then show "fst (get_bus_id env device_path) = re_search BUS_ID_RE (strip out)"
    by (simp add: get_bus_id_def get_bus_id_try_def Let_def split: option.splits)
next
  show "re_search BUS_ID_RE path = None \<longleftrightarrow>
      (\<forall>pre m post. path = pre @ m @ post \<longrightarrow> \<not> is_bus_id m)"
    by (simp add: re_search_None re_matches_BUS_ID_RE)
next
  fix m assume h: "re_search BUS_ID_RE path = Some m"
  from re_search_Some[OF h] obtain pre post where
    p: "path = pre @ m @ post" "match_here BUS_ID_RE (m @ post) = Some m"
       "\<forall>pre' m' post'. path = pre' @ m' @ post' \<and> re_matches BUS_ID_RE m'
             \<longrightarrow> length pre \<le> length pre'"
    by blast
  have bid: "is_bus_id m"
    using match_here_sound[OF p(2)] by (simp add: re_matches_BUS_ID_RE)
  have "\<forall>pre' m' post'. path = pre' @ m' @ post' \<and> is_bus_id m'
               \<longrightarrow> length pre < length pre'
                   \<or> (length pre = length pre' \<and> length m' \<le> length m)"
  proof (intro allI impI)
    fix pre' m' post' assume a: "path = pre' @ m' @ post' \<and> is_bus_id m'"
    then have le: "length pre \<le> length pre'" using p(3) re_matches_BUS_ID_RE by blast
    show "length pre < length pre' \<or> (length pre = length pre' \<and> length m' \<le> length m)"
    proof (cases "length pre = length pre'")
      case True
      then have "m' @ post' = m @ post" using a p(1) by auto
      then have "match_here BUS_ID_RE (m' @ post') = Some m" using p(2) by simp
      from match_here_longest[OF deterministic_BUS_ID_RE _ this] a
      have "length m' \<le> length m" by (simp add: re_matches_BUS_ID_RE)
      then show ?thesis using True by simp
    next
      case False
      then show ?thesis using le by simp
    qed
  qed
  then show "\<exists>pre post. path = pre @ m @ post \<and> is_bus_id m
         \<and> (\<forall>pre' m' post'. path = pre' @ m' @ post' \<and> is_bus_id m'
               \<longrightarrow> length pre < length pre'
                   \<or> (length pre = length pre' \<and> length m' \<le> length m))"
    using p(1) bid by blast
qed

theorem bus_id_search_first_match_witness:
  "udevadm example_env ''/dev/video0'' =
      Exited 0 (''/devices/pci0000:00/0000:00:14.0/usb1/1-2/1-2:1.0/video4linux/video0''
                  @ [CHR 0x0A])
   \<and> fst (get_bus_id example_env ''/dev/video0'') = Some ''1-2:1.0''
   \<and> re_search BUS_ID_RE ''/devices/pci0000:00/0000:00:14.0/usb3/3-2/3-2:1.0/video4linux/video0''
      = Some ''3-2:1.0''
   \<and> is_bus_id ''3-2:1.0''
   \<and> re_search BUS_ID_RE ''/devices/virtual/video4linux/video9'' = None
   \<and> \<not> is_bus_id ''video9''"
proof -
  note t = bus_id_search_first_match
  have u: "udevadm example_env ''/dev/video0'' =
      Exited 0 (''/devices/pci0000:00/0000:00:14.0/usb1/1-2/1-2:1.0/video4linux/video0''
                  @ [CHR 0x0A])"
    by (simp add: example_env_def)
  have s: "re_search BUS_ID_RE
      (strip (''/devices/pci0000:00/0000:00:14.0/usb1/1-2/1-2:1.0/video4linux/video0''
                @ [CHR 0x0A])) = Some ''1-2:1.0''"
    by (simp add: BUS_ID_RE_def is_digit_def strip_def is_space_def)
  from t[of example_env "''/dev/video0''"] u s
  have g: "fst (get_bus_id example_env ''/dev/video0'') = Some ''1-2:1.0''"
    by simp
  have a: "re_search BUS_ID_RE ''/devices/pci0000:00/0000:00:14.0/usb3/3-2/3-2:1.0/video4linux/video0''
      = Some ''3-2:1.0''"
    by (simp add: BUS_ID_RE_def is_digit_def)
  have b: "re_search BUS_ID_RE ''/devices/virtual/video4linux/video9'' = None"
    by (simp add: BUS_ID_RE_def is_digit_def)
  have c: "''/devices/virtual/video4linux/video9'' = ''/devices/virtual/video4linux/'' @ ''video9'' @ []"
    by simp
  from t[of _ _ _ "''/devices/pci0000:00/0000:00:14.0/usb3/3-2/3-2:1.0/video4linux/video0''"] a
  have "is_bus_id ''3-2:1.0''" by blast
  moreover from t[of _ _ _ "''/devices/virtual/video4linux/video9''"] b c
  have "\<not> is_bus_id ''video9''" by blast
  ultimately show ?thesis using u g a b by simp
qed

section \<open>Dictionaries and the existence check\<close>

lemma dict_get_dict_set:
  "dict_get (dict_set k v d) k' = (if k' = k then Some v else dict_get d k')"
  by (induction d) (auto simp: dict_get_def)

lemma dict_contains_iff: "dict_contains d k \<longleftrightarrow> dict_get d k \<noteq> None"
  by (simp add: dict_contains_def dict_get_def map_of_eq_None_iff)

lemma dict_get_Nil: "dict_get [] k = None"
  by (simp add: dict_get_def)

lemma device_exists_cases:
  "device_exists env p = Inr True \<or> device_exists env p = Inr False"
  by (auto simp: device_exists_def device_exists_try_def stat_probe_def
           split: sum.splits exn.splits)

text \<open>
  Claim C7. For every path, \<^verbatim>\<open>device_exists\<close> returns a boolean and raises nothing. The
  boolean is true exactly when the path exists, its resolved target exists too in case
  the path is a symbolic link, and the final \<^verbatim>\<open>os.stat\<close> succeeds; so every error of
  the operating system gives false.
\<close>

theorem device_exists_total:
  "device_exists env p =
     Inr (path_exists env p
          \<and> (path_islink env p \<longrightarrow>
                (\<exists>real. path_realpath env p = Inr real \<and> path_exists env real))
          \<and> os_stat env p = Inr ())"
  by (auto simp: device_exists_def device_exists_try_def stat_probe_def
           split: sum.splits exn.splits)

theorem device_exists_total_witness:
  "device_exists symlink_env ''/dev/video0'' = Inr True
   \<and> device_exists example_env ''/dev/video2'' = Inr False"
  using device_exists_total[of symlink_env "''/dev/video0''"]
    device_exists_total[of example_env "''/dev/video2''"]
  by (simp add: symlink_env_def example_env_def)

section \<open>The loop over the configured devices\<close>

lemma resolve_device_total: "\<exists>st' evs. resolve_device env d st = Inr (st', evs)"
  using device_exists_cases[of env d]
  by (auto simp: resolve_device_def Let_def split: prod.splits option.splits)

lemma resolve_device_cache:
  assumes "resolve_device env d st = Inr (st', evs)"
  shows "dict_get (cache st') k =
     (if k = d \<and> detected env d \<noteq> None then detected env d else dict_get (cache st) k)"
  using assms device_exists_cases[of env d]
  by (auto simp: resolve_device_def detected_def Let_def dict_get_dict_set
           split: prod.splits option.splits if_splits)

lemma resolve_device_camera_map:
  assumes "resolve_device env d st = Inr (st', evs)"
  shows "dict_get (camera_map st') k =
     (if k = d
      then (case detected env d of
              Some b \<Rightarrow> Some b
            | None \<Rightarrow>
                if device_exists env d = Inr True then dict_get (camera_map st) k
                else (case dict_get (cache st) d of
                        Some b \<Rightarrow> Some b
                      | None \<Rightarrow> dict_get (camera_map st) k))
      else dict_get (camera_map st) k)"
  using assms device_exists_cases[of env d]
  by (auto simp: resolve_device_def detected_def Let_def dict_get_dict_set
           split: prod.splits option.splits if_splits)

lemma resolve_device_updated:
  assumes "resolve_device env d st = Inr (st', evs)"
  shows "cache_updated st' \<longleftrightarrow>
     cache_updated st \<or> (detected env d \<noteq> None \<and> dict_get (cache st) d \<noteq> detected env d)"
  using assms device_exists_cases[of env d]
  by (auto simp: resolve_device_def detected_def Let_def dict_get_dict_set
           split: prod.splits option.splits if_splits)

lemma get_bus_id_events: "\<forall>e \<in> set (snd (get_bus_id env d)). \<exists>l m. e = Log l m"
  by (auto simp: get_bus_id_def get_bus_id_try_def Let_def
           split: sum.splits exn.splits proc.splits option.splits)

lemma resolve_device_events:
  assumes "resolve_device env d st = Inr (st', evs)"
  shows "attempted evs d \<and> (\<forall>e \<in> set evs. \<exists>l m. e = Log l m)"
proof (cases "device_exists env d = Inr True")
  case True
  obtain r g where g: "get_bus_id env d = (r, g)" by (cases "get_bus_id env d")
  then have logs: "\<forall>e \<in> set g. \<exists>l m. e = Log l m"
    using get_bus_id_events[of env d] by simp
  from assms True g show ?thesis using logs
    by (auto simp: resolve_device_def attempted_def Let_def split: option.splits if_splits)
next
  case False
  then have "device_exists env d = Inr False" using device_exists_cases[of env d] by simp
  with assms show ?thesis
    by (auto simp: resolve_device_def attempted_def split: option.splits)
qed

lemma resolve_all_total: "\<exists>st' evs. resolve_all env ds st = Inr (st', evs)"
proof (induction ds arbitrary: st)
  case Nil
  show ?case by simp
next
  case (Cons d ds)
  obtain st1 evs1 where 1: "resolve_device env d st = Inr (st1, evs1)"
    using resolve_device_total by blast
  obtain st2 evs2 where 2: "resolve_all env ds st1 = Inr (st2, evs2)"
    using Cons.IH by blast
  show ?case using 1 2 by simp
qed

lemma resolve_all_Cons:
  assumes "resolve_all env (d # ds) st = Inr (st', evs)"
  obtains st1 evs1 evs2 where
    "resolve_device env d st = Inr (st1, evs1)"
    "resolve_all env ds st1 = Inr (st', evs2)"
    "evs = evs1 @ evs2"
  using assms by (auto split: sum.splits prod.splits)

lemma resolve_all_cache:
  "resolve_all env ds st = Inr (st', evs) \<Longrightarrow>
   dict_get (cache st') k =
     (if k \<in> set ds \<and> detected env k \<noteq> None then detected env k else dict_get (cache st) k)"
proof (induction ds arbitrary: st evs)
  case Nil
  then show ?case by simp
next
  case (Cons d ds)
  from Cons.prems obtain st1 evs1 evs2 where
    1: "resolve_device env d st = Inr (st1, evs1)" and
    2: "resolve_all env ds st1 = Inr (st', evs2)"
    by (rule resolve_all_Cons)
  show ?case
    unfolding Cons.IH[OF 2] resolve_device_cache[OF 1] by auto
qed

lemma resolve_all_camera_map:
  "resolve_all env ds st = Inr (st', evs) \<Longrightarrow>
   dict_get (camera_map st') k =
     (if k \<in> set ds
      then (case detected env k of
              Some b \<Rightarrow> Some b
            | None \<Rightarrow>
                if device_exists env k = Inr True then dict_get (camera_map st) k
                else (case dict_get (cache st) k of
                        Some b \<Rightarrow> Some b
                      | None \<Rightarrow> dict_get (camera_map st) k))
      else dict_get (camera_map st) k)"
proof (induction ds arbitrary: st evs)
  case Nil
  then show ?case by simp
next
  case (Cons d ds)
  from Cons.prems obtain st1 evs1 evs2 where
    1: "resolve_device env d st = Inr (st1, evs1)" and
    2: "resolve_all env ds st1 = Inr (st', evs2)"
    by (rule resolve_all_Cons)
  show ?case
    unfolding Cons.IH[OF 2] resolve_device_camera_map[OF 1] resolve_device_cache[OF 1]
    by (auto split: option.splits)
qed

lemma resolve_all_updated:
  "resolve_all env ds st = Inr (st', evs) \<Longrightarrow>
   cache_updated st' \<longleftrightarrow>
     cache_updated st
     \<or> (\<exists>d \<in> set ds. detected env d \<noteq> None \<and> dict_get (cache st) d \<noteq> detected env d)"
proof (induction ds arbitrary: st evs)
  case Nil
  then show ?case by simp
next
  case (Cons d ds)
  from Cons.prems obtain st1 evs1 evs2 where
    1: "resolve_device env d st = Inr (st1, evs1)" and
    2: "resolve_all env ds st1 = Inr (st', evs2)"
    by (rule resolve_all_Cons)
  show ?case
    unfolding Cons.IH[OF 2] resolve_device_updated[OF 1] resolve_device_cache[OF 1]
    by auto
qed

lemma attempted_append:
  "attempted (evs1 @ evs2) d \<longleftrightarrow> attempted evs1 d \<or> attempted evs2 d"
  by (auto simp: attempted_def)

lemma resolve_all_events:
  "resolve_all env ds st = Inr (st', evs) \<Longrightarrow>
   (\<forall>d \<in> set ds. attempted evs d) \<and> (\<forall>e \<in> set evs. \<exists>l m. e = Log l m)"
proof (induction ds arbitrary: st evs)
  case Nil
  then show ?case by simp
next
  case (Cons d ds)
  from Cons.prems obtain st1 evs1 evs2 where
    1: "resolve_device env d st = Inr (st1, evs1)" and
    2: "resolve_all env ds st1 = Inr (st', evs2)" and
    3: "evs = evs1 @ evs2"
    by (rule resolve_all_Cons)
  show ?case
    using Cons.IH[OF 2] resolve_device_events[OF 1] 3
    by (auto simp: attempted_append)
qed

lemma parse_load_events:
  "filter is_save (snd (parse_camera_devices env)) = []"
  "filter is_save (snd (load_cache cf)) = []"
  "filter poll_action (snd (parse_camera_devices env)) = []"
  "filter poll_action (snd (load_cache cf)) = []"
  by (auto simp: parse_camera_devices_def load_cache_def split: sum.splits cache_file.splits)

lemma logs_no_save: "\<forall>e \<in> set evs. \<exists>l m. e = Log l m \<Longrightarrow> filter is_save evs = []"
  by (induction evs) auto

lemma logs_no_poll_action:
  "\<forall>e \<in> set evs. \<exists>l m. e = Log l m \<Longrightarrow> filter poll_action evs = []"
  by (induction evs) auto

lemma save_cache_events:
  "filter is_save (snd (save_cache env c cf)) = [SaveCache c]"
  "filter poll_action (snd (save_cache env c cf)) = []"
  by (auto simp: save_cache_def split: write_outcome.splits)

lemma build_camera_map_unfold:
  obtains st evs_r where
    "resolve_all env (fst (parse_camera_devices env))
       \<lparr>camera_map = [], cache = fst (load_cache cf), cache_updated = False\<rparr> = Inr (st, evs_r)"
    "build_camera_map env cf =
       Inr (camera_map st,
            if cache_updated st then fst (save_cache env (cache st) cf) else cf,
            snd (parse_camera_devices env) @ snd (load_cache cf) @ evs_r
              @ (if cache_updated st then snd (save_cache env (cache st) cf) else []))"
proof -
  obtain st evs_r where r: "resolve_all env (fst (parse_camera_devices env))
       \<lparr>camera_map = [], cache = fst (load_cache cf), cache_updated = False\<rparr> = Inr (st, evs_r)"
    using resolve_all_total by blast
  then have "build_camera_map env cf =
       Inr (camera_map st,
            if cache_updated st then fst (save_cache env (cache st) cf) else cf,
            snd (parse_camera_devices env) @ snd (load_cache cf) @ evs_r
              @ (if cache_updated st then snd (save_cache env (cache st) cf) else []))"
    by (cases "parse_camera_devices env"; cases "load_cache cf";
        cases "save_cache env (cache st) cf") (simp add: build_camera_map_def)
  with r show ?thesis using that by blast
qed

lemma load_cache_get:
  "dict_get (fst (load_cache cf)) k = Some b \<Longrightarrow> \<exists>c. cf = Holds c"
  by (cases cf) (auto simp: load_cache_def dict_get_def)

section \<open>The example installations, evaluated\<close>

lemmas example_defs = example_env_def example_ini_def example_cache_def undetectable_env_def
  stale_cache_def denied_env_def broken_ini_env_def symlink_env_def

lemmas model_defs = parse_camera_devices_def parse_camera_devices_try_def startswith_def
  DEVICE_RE_def BUS_ID_RE_def device_group1_def is_space_def is_digit_def strip_def
  load_cache_def save_cache_def get_bus_id_def get_bus_id_try_def
  device_exists_def device_exists_try_def stat_probe_def resolve_device_def
  build_camera_map_def dict_get_def dict_contains_def detected_def

lemma example_parse:
  "parse_camera_devices example_env =
     ([''/dev/video0'', ''/dev/video2''], [Log INFO (MsgFound [''/dev/video0'', ''/dev/video2''])])"
  by (simp add: model_defs example_defs)

lemma example_detected:
  "detected example_env ''/dev/video0'' = Some ''1-2:1.0''"
  "detected example_env ''/dev/video2'' = None"
  "device_exists example_env ''/dev/video2'' = Inr False"
  by (simp_all add: model_defs example_defs)

lemma example_build:
  "build_camera_map example_env example_cache =
     Inr ([(''/dev/video0'', ''1-2:1.0''), (''/dev/video2'', ''1-3:1.0'')],
          Holds [(''/dev/video2'', ''1-3:1.0''), (''/dev/video0'', ''1-2:1.0'')],
          [Log INFO (MsgFound [''/dev/video0'', ''/dev/video2'']),
           Log INFO (MsgMapped ''/dev/video0'' ''1-2:1.0''),
           Log INFO (MsgFromCache ''/dev/video2'' ''1-3:1.0''),
           SaveCache [(''/dev/video2'', ''1-3:1.0''), (''/dev/video0'', ''1-2:1.0'')]])"
  by (simp add: model_defs example_defs)

lemma undetectable_build:
  "build_camera_map undetectable_env stale_cache =
     Inr ([], stale_cache,
          [Log INFO (MsgFound [''/dev/video0'', ''/dev/video2'']),
           Log ERROR (MsgErrorGettingBusId ''/dev/video0'' (CalledProcessError 1)),
           Log WARNING (MsgCouldNotDetect ''/dev/video0''),
           Log WARNING (MsgNoCache ''/dev/video2'')])"
  by (simp add: model_defs example_defs)

section \<open>Properties of \<^verbatim>\<open>build_camera_map\<close>\<close>

text \<open>
  Claim C1, as amended. \<^verbatim>\<open>build_camera_map\<close> always returns, and every configured path
  is attempted: the loop logs one of its four outcomes for it. A configured path is in
  the final camera map if and only if live detection succeeded (the node exists and
  \<^verbatim>\<open>get_bus_id\<close> returned an identifier) or the node does not exist and the cache
  loaded at the start has an entry for the path. No other path is in the map.
\<close>

theorem camera_map_membership:
  "\<exists>cm cf' evs. build_camera_map env cf = Inr (cm, cf', evs)
     \<and> (\<forall>d \<in> set (fst (parse_camera_devices env)).
           attempted evs d
           \<and> (dict_contains cm d \<longleftrightarrow>
                detected env d \<noteq> None
                \<or> (device_exists env d = Inr False \<and> dict_contains (fst (load_cache cf)) d)))
     \<and> (\<forall>d. dict_contains cm d \<longrightarrow> d \<in> set (fst (parse_camera_devices env)))"
proof -
  obtain st evs_r where
    r: "resolve_all env (fst (parse_camera_devices env))
       \<lparr>camera_map = [], cache = fst (load_cache cf), cache_updated = False\<rparr> = Inr (st, evs_r)"
    and b: "build_camera_map env cf =
       Inr (camera_map st,
            if cache_updated st then fst (save_cache env (cache st) cf) else cf,
            snd (parse_camera_devices env) @ snd (load_cache cf) @ evs_r
              @ (if cache_updated st then snd (save_cache env (cache st) cf) else []))"
    by (rule build_camera_map_unfold)
  have att: "\<forall>d \<in> set (fst (parse_camera_devices env)). attempted evs_r d"
    using resolve_all_events[OF r] by blast
  have mem: "dict_contains (camera_map st) d \<longleftrightarrow>
       d \<in> set (fst (parse_camera_devices env))
       \<and> (detected env d \<noteq> None
           \<or> (device_exists env d = Inr False \<and> dict_contains (fst (load_cache cf)) d))" for d
    unfolding dict_contains_iff resolve_all_camera_map[OF r]
    using device_exists_cases[of env d]
    by (auto simp: dict_get_Nil split: option.splits)
  show ?thesis
    unfolding b using att mem by (auto simp: attempted_append)
qed

theorem camera_map_membership_witness:
  "''/dev/video0'' \<in> set (fst (parse_camera_devices example_env))
   \<and> detected example_env ''/dev/video0'' = Some ''1-2:1.0''
   \<and> dict_contains [(''/dev/video0'', ''1-2:1.0''), (''/dev/video2'', ''1-3:1.0'')] ''/dev/video0''
   \<and> ''/dev/video2'' \<in> set (fst (parse_camera_devices example_env))
   \<and> device_exists example_env ''/dev/video2'' = Inr False
   \<and> dict_contains (fst (load_cache example_cache)) ''/dev/video2''
   \<and> dict_contains [(''/dev/video0'', ''1-2:1.0''), (''/dev/video2'', ''1-3:1.0'')] ''/dev/video2''"
proof -
  have p: "''/dev/video0'' \<in> set (fst (parse_camera_devices example_env))"
    "''/dev/video2'' \<in> set (fst (parse_camera_devices example_env))"
    by (simp_all add: example_parse)
  have c: "dict_contains (fst (load_cache example_cache)) ''/dev/video2''"
    by (simp add: load_cache_def example_cache_def dict_contains_def)
  from camera_map_membership[of example_env example_cache]
  have m: "\<forall>d \<in> set (fst (parse_camera_devices example_env)).
        dict_contains [(''/dev/video0'', ''1-2:1.0''), (''/dev/video2'', ''1-3:1.0'')] d \<longleftrightarrow>
                detected example_env d \<noteq> None
                \<or> (device_exists example_env d = Inr False
                    \<and> dict_contains (fst (load_cache example_cache)) d)"
    unfolding example_build by blast
  from m p(1) example_detected(1)
  have a: "dict_contains [(''/dev/video0'', ''1-2:1.0''), (''/dev/video2'', ''1-3:1.0'')] ''/dev/video0''"
    by blast
  from m p(2) example_detected(3) c
  have b: "dict_contains [(''/dev/video0'', ''1-2:1.0''), (''/dev/video2'', ''1-3:1.0'')] ''/dev/video2''"
    by blast
  show ?thesis using p c a b example_detected by simp
qed

text \<open>
  The rule as the specification words it, without the condition that the node is
  missing, fails: a configured path whose node exists, whose bus id cannot be detected
  and which has a cache entry is left out of the map.
\<close>

theorem camera_map_membership_counterexample:
  "''/dev/video0'' \<in> set (fst (parse_camera_devices undetectable_env))
   \<and> \<not> membership_as_specified undetectable_env stale_cache ''/dev/video0''"
  by (simp add: membership_as_specified_def undetectable_build)
     (simp add: model_defs example_defs)

text \<open>
  Claim C2. For a path whose device node does not exist and that has a cache entry, the
  loop body puts the cached bus id into the camera map and changes neither the cache nor
  the flag \<^verbatim>\<open>cache_updated\<close>; and when the path is configured, the camera map that
  \<^verbatim>\<open>build_camera_map\<close> returns holds the bus id of the cache loaded at the start, and
  so does every cache that is saved and the cache file afterwards.
\<close>

theorem cache_fallback_unchanged:
  assumes "device_exists env d = Inr False"
  shows "(\<forall>(st::resolver_state) b. dict_get (cache st) d = Some b \<longrightarrow>
            resolve_device env d st =
              Inr (st\<lparr>camera_map := dict_set d b (camera_map st)\<rparr>,
                   [Log INFO (MsgFromCache d b)]))
     \<and> (\<forall>b. d \<in> set (fst (parse_camera_devices env))
              \<and> dict_get (fst (load_cache cf)) d = Some b \<longrightarrow>
            (\<exists>cm cf' evs. build_camera_map env cf = Inr (cm, cf', evs)
               \<and> dict_get cm d = Some b
               \<and> (\<forall>c. SaveCache c \<in> set evs \<longrightarrow> dict_get c d = Some b)
               \<and> (\<forall>c. cf' = Holds c \<longrightarrow> dict_get c d = Some b)))"
proof (intro conjI allI impI)
  fix st :: resolver_state and b assume "dict_get (cache st) d = Some b"
  then show "resolve_device env d st =
      Inr (st\<lparr>camera_map := dict_set d b (camera_map st)\<rparr>, [Log INFO (MsgFromCache d b)])"
    using assms by (simp add: resolve_device_def)
next
  fix b assume h: "d \<in> set (fst (parse_camera_devices env))
              \<and> dict_get (fst (load_cache cf)) d = Some b"
  obtain st evs_r where
    r: "resolve_all env (fst (parse_camera_devices env))
       \<lparr>camera_map = [], cache = fst (load_cache cf), cache_updated = False\<rparr> = Inr (st, evs_r)"
    and bd: "build_camera_map env cf =
       Inr (camera_map st,
            if cache_updated st then fst (save_cache env (cache st) cf) else cf,
            snd (parse_camera_devices env) @ snd (load_cache cf) @ evs_r
              @ (if cache_updated st then snd (save_cache env (cache st) cf) else []))"
    by (rule build_camera_map_unfold)
  have nd: "detected env d = None" using assms by (simp add: detected_def)
  have cm: "dict_get (camera_map st) d = Some b"
    unfolding resolve_all_camera_map[OF r] using h nd assms by simp
  have ca: "dict_get (cache st) d = Some b"
    unfolding resolve_all_cache[OF r] using h nd by simp
  have logs: "\<forall>e \<in> set evs_r. \<exists>l m. e = Log l m"
    using resolve_all_events[OF r] by blast
  have sv: "\<forall>c. SaveCache c \<in> set (snd (parse_camera_devices env) @ snd (load_cache cf) @ evs_r
              @ (if cache_updated st then snd (save_cache env (cache st) cf) else []))
        \<longrightarrow> dict_get c d = Some b"
    using logs ca
    by (auto simp: parse_camera_devices_def load_cache_def save_cache_def
             split: sum.splits cache_file.splits write_outcome.splits)
  obtain c0 where c0: "cf = Holds c0" using load_cache_get h by blast
  then have c0d: "dict_get c0 d = Some b" using h by (simp add: load_cache_def)
  have fl: "\<forall>c. (if cache_updated st then fst (save_cache env (cache st) cf) else cf) = Holds c
        \<longrightarrow> dict_get c d = Some b"
    using c0 c0d ca by (auto simp: save_cache_def split: write_outcome.splits)
  show "\<exists>cm cf' evs. build_camera_map env cf = Inr (cm, cf', evs)
               \<and> dict_get cm d = Some b
               \<and> (\<forall>c. SaveCache c \<in> set evs \<longrightarrow> dict_get c d = Some b)
               \<and> (\<forall>c. cf' = Holds c \<longrightarrow> dict_get c d = Some b)"
    unfolding bd using cm sv fl by blast
qed

theorem cache_fallback_unchanged_witness:
  "device_exists example_env ''/dev/video2'' = Inr False
   \<and> ''/dev/video2'' \<in> set (fst (parse_camera_devices example_env))
   \<and> dict_get (fst (load_cache example_cache)) ''/dev/video2'' = Some ''1-3:1.0''
   \<and> dict_get [(''/dev/video0'', ''1-2:1.0''), (''/dev/video2'', ''1-3:1.0'')] ''/dev/video2''
        = Some ''1-3:1.0''
   \<and> resolve_device example_env ''/dev/video2''
         \<lparr>camera_map = [], cache = [(''/dev/video2'', ''1-3:1.0'')], cache_updated = False\<rparr>
       = Inr (\<lparr>camera_map = [(''/dev/video2'', ''1-3:1.0'')],
               cache = [(''/dev/video2'', ''1-3:1.0'')], cache_updated = False\<rparr>,
              [Log INFO (MsgFromCache ''/dev/video2'' ''1-3:1.0'')])"
proof -
  have h: "device_exists example_env ''/dev/video2'' = Inr False"
    by (rule example_detected(3))
  have p: "''/dev/video2'' \<in> set (fst (parse_camera_devices example_env))"
    by (simp add: example_parse)
  have c: "dict_get (fst (load_cache example_cache)) ''/dev/video2'' = Some ''1-3:1.0''"
    by (simp add: load_cache_def example_cache_def dict_get_def)
  note t = cache_fallback_unchanged[OF h, of example_cache]
  from t p c have "\<exists>cm cf' evs. build_camera_map example_env example_cache = Inr (cm, cf', evs)
      \<and> dict_get cm ''/dev/video2'' = Some ''1-3:1.0''"
    by blast
  then have a: "dict_get [(''/dev/video0'', ''1-2:1.0''), (''/dev/video2'', ''1-3:1.0'')]
      ''/dev/video2'' = Some ''1-3:1.0''"
    unfolding example_build by simp
  have "dict_get (cache \<lparr>camera_map = [], cache = [(''/dev/video2'', ''1-3:1.0'')],
      cache_updated = False\<rparr>) ''/dev/video2'' = Some ''1-3:1.0''"
    by (simp add: dict_get_def)
  with t have b: "resolve_device example_env ''/dev/video2''
         \<lparr>camera_map = [], cache = [(''/dev/video2'', ''1-3:1.0'')], cache_updated = False\<rparr>
       = Inr (\<lparr>camera_map = [], cache = [(''/dev/video2'', ''1-3:1.0'')], cache_updated = False\<rparr>
                \<lparr>camera_map := dict_set ''/dev/video2'' ''1-3:1.0''
                   (camera_map \<lparr>camera_map = [], cache = [(''/dev/video2'', ''1-3:1.0'')],
                      cache_updated = False\<rparr>)\<rparr>,
              [Log INFO (MsgFromCache ''/dev/video2'' ''1-3:1.0'')])"
    by blast
  show ?thesis using h p c a b by simp
qed

text \<open>
  Claim C3. For a path whose node exists and whose freshly detected bus id differs from
  the cached value, or is not cached, the loop body stores the new bus id in the cache
  and sets \<^verbatim>\<open>cache_updated\<close>; and when the path is configured, \<^verbatim>\<open>build_camera_map\<close>
  calls \<^verbatim>\<open>save_cache\<close> exactly once before it returns, with a cache that holds the new
  bus id, which is the content of the cache file afterwards when the write works.
\<close>

theorem cache_refresh_persisted:
  assumes "detected env d = Some b"
  shows "(\<forall>st::resolver_state. dict_get (cache st) d \<noteq> Some b \<longrightarrow>
            (\<exists>st' evs. resolve_device env d st = Inr (st', evs)
               \<and> cache_updated st' \<and> dict_get (cache st') d = Some b
               \<and> dict_get (camera_map st') d = Some b))
     \<and> (d \<in> set (fst (parse_camera_devices env))
          \<and> dict_get (fst (load_cache cf)) d \<noteq> Some b \<longrightarrow>
            (\<exists>cm cf' evs c. build_camera_map env cf = Inr (cm, cf', evs)
               \<and> dict_get cm d = Some b
               \<and> filter is_save evs = [SaveCache c]
               \<and> dict_get c d = Some b
               \<and> (cache_write env = Written \<longrightarrow> cf' = Holds c)))"
proof (intro conjI allI impI)
  fix st :: resolver_state assume ne: "dict_get (cache st) d \<noteq> Some b"
  obtain st' evs where s: "resolve_device env d st = Inr (st', evs)"
    using resolve_device_total by blast
  show "\<exists>st' evs. resolve_device env d st = Inr (st', evs)
               \<and> cache_updated st' \<and> dict_get (cache st') d = Some b
               \<and> dict_get (camera_map st') d = Some b"
    using s resolve_device_updated[OF s] resolve_device_cache[OF s, of d]
      resolve_device_camera_map[OF s, of d] assms ne by simp
next
  assume h: "d \<in> set (fst (parse_camera_devices env))
          \<and> dict_get (fst (load_cache cf)) d \<noteq> Some b"
  obtain st evs_r where
    r: "resolve_all env (fst (parse_camera_devices env))
       \<lparr>camera_map = [], cache = fst (load_cache cf), cache_updated = False\<rparr> = Inr (st, evs_r)"
    and bd: "build_camera_map env cf =
       Inr (camera_map st,
            if cache_updated st then fst (save_cache env (cache st) cf) else cf,
            snd (parse_camera_devices env) @ snd (load_cache cf) @ evs_r
              @ (if cache_updated st then snd (save_cache env (cache st) cf) else []))"
    by (rule build_camera_map_unfold)
  have up: "cache_updated st"
    unfolding resolve_all_updated[OF r] using h assms by auto
  have cm: "dict_get (camera_map st) d = Some b"
    unfolding resolve_all_camera_map[OF r] using h assms by simp
  have ca: "dict_get (cache st) d = Some b"
    unfolding resolve_all_cache[OF r] using h assms by simp
  have logs: "filter is_save evs_r = []"
    using resolve_all_events[OF r] logs_no_save by blast
  have bd': "build_camera_map env cf =
       Inr (camera_map st, fst (save_cache env (cache st) cf),
            snd (parse_camera_devices env) @ snd (load_cache cf) @ evs_r
              @ snd (save_cache env (cache st) cf))"
    using bd up by simp
  have w: "cache_write env = Written \<longrightarrow> fst (save_cache env (cache st) cf) = Holds (cache st)"
    by (simp add: save_cache_def)
  show "\<exists>cm cf' evs c. build_camera_map env cf = Inr (cm, cf', evs)
               \<and> dict_get cm d = Some b
               \<and> filter is_save evs = [SaveCache c]
               \<and> dict_get c d = Some b
               \<and> (cache_write env = Written \<longrightarrow> cf' = Holds c)"
    unfolding bd' using cm ca logs w
    by (simp add: parse_load_events save_cache_events)
qed

theorem cache_refresh_persisted_witness:
  "detected example_env ''/dev/video0'' = Some ''1-2:1.0''
   \<and> ''/dev/video0'' \<in> set (fst (parse_camera_devices example_env))
   \<and> dict_get (fst (load_cache example_cache)) ''/dev/video0'' \<noteq> Some ''1-2:1.0''
   \<and> cache_write example_env = Written
   \<and> (\<exists>cm cf' evs c. build_camera_map example_env example_cache = Inr (cm, cf', evs)
         \<and> dict_get cm ''/dev/video0'' = Some ''1-2:1.0''
         \<and> filter is_save evs = [SaveCache c]
         \<and> dict_get c ''/dev/video0'' = Some ''1-2:1.0''
         \<and> cf' = Holds c)"
proof -
  have h: "detected example_env ''/dev/video0'' = Some ''1-2:1.0''"
    by (rule example_detected(1))
  have p: "''/dev/video0'' \<in> set (fst (parse_camera_devices example_env))"
    by (simp add: example_parse)
  have c: "dict_get (fst (load_cache example_cache)) ''/dev/video0'' \<noteq> Some ''1-2:1.0''"
    by (simp add: load_cache_def example_cache_def dict_get_def)
  have w: "cache_write example_env = Written"
    by (simp add: example_env_def)
  from cache_refresh_persisted[OF h, of example_cache] p c w
  have "\<exists>cm cf' evs c. build_camera_map example_env example_cache = Inr (cm, cf', evs)
         \<and> dict_get cm ''/dev/video0'' = Some ''1-2:1.0''
         \<and> filter is_save evs = [SaveCache c]
         \<and> dict_get c ''/dev/video0'' = Some ''1-2:1.0''
         \<and> cf' = Holds c"
    by blast
  then show ?thesis using h p c w by blast
qed

text \<open>
  Claim C9. The loop of \<^verbatim>\<open>build_camera_map\<close> never removes a key from the cache; and a
  key of the cache loaded at the start is a key of every cache passed to
  \<^verbatim>\<open>save_cache\<close> and of the cache file afterwards, whenever that file holds a cache.
\<close>

theorem cache_keys_kept:
  "(\<forall>ds (st::resolver_state) st' evs.
       resolve_all env ds st = Inr (st', evs) \<and> dict_contains (cache st) k
         \<longrightarrow> dict_contains (cache st') k)
   \<and> (dict_contains (fst (load_cache cf)) k \<longrightarrow>
        (\<exists>cm cf' evs. build_camera_map env cf = Inr (cm, cf', evs)
           \<and> (\<forall>c. SaveCache c \<in> set evs \<longrightarrow> dict_contains c k)
           \<and> (\<forall>c. cf' = Holds c \<longrightarrow> dict_contains c k)))"
proof (intro conjI allI impI)
  fix ds and st st' :: resolver_state and evs
  assume "resolve_all env ds st = Inr (st', evs) \<and> dict_contains (cache st) k"
  then show "dict_contains (cache st') k"
    using resolve_all_cache[of env ds st st' evs k] by (auto simp: dict_contains_iff)
next
  assume h: "dict_contains (fst (load_cache cf)) k"
  obtain st evs_r where
    r: "resolve_all env (fst (parse_camera_devices env))
       \<lparr>camera_map = [], cache = fst (load_cache cf), cache_updated = False\<rparr> = Inr (st, evs_r)"
    and bd: "build_camera_map env cf =
       Inr (camera_map st,
            if cache_updated st then fst (save_cache env (cache st) cf) else cf,
            snd (parse_camera_devices env) @ snd (load_cache cf) @ evs_r
              @ (if cache_updated st then snd (save_cache env (cache st) cf) else []))"
    by (rule build_camera_map_unfold)
  have ca: "dict_contains (cache st) k"
    using resolve_all_cache[OF r, of k] h by (auto simp: dict_contains_iff)
  have logs: "\<forall>e \<in> set evs_r. \<exists>l m. e = Log l m"
    using resolve_all_events[OF r] by blast
  have sv: "\<forall>c. SaveCache c \<in> set (snd (parse_camera_devices env) @ snd (load_cache cf) @ evs_r
              @ (if cache_updated st then snd (save_cache env (cache st) cf) else []))
        \<longrightarrow> dict_contains c k"
    using logs ca
    by (auto simp: parse_camera_devices_def load_cache_def save_cache_def
             split: sum.splits cache_file.splits write_outcome.splits)
  have fl: "\<forall>c. (if cache_updated st then fst (save_cache env (cache st) cf) else cf) = Holds c
        \<longrightarrow> dict_contains c k"
    using h ca by (auto simp: save_cache_def load_cache_def split: write_outcome.splits)
  show "\<exists>cm cf' evs. build_camera_map env cf = Inr (cm, cf', evs)
           \<and> (\<forall>c. SaveCache c \<in> set evs \<longrightarrow> dict_contains c k)
           \<and> (\<forall>c. cf' = Holds c \<longrightarrow> dict_contains c k)"
    unfolding bd using sv fl by blast
qed

theorem cache_keys_kept_witness:
  "dict_contains (fst (load_cache example_cache)) ''/dev/video2''
   \<and> dict_contains [(''/dev/video2'', ''1-3:1.0''), (''/dev/video0'', ''1-2:1.0'')] ''/dev/video2''"
proof -
  have h: "dict_contains (fst (load_cache example_cache)) ''/dev/video2''"
    by (simp add: load_cache_def example_cache_def dict_contains_def)
  from cache_keys_kept[of example_env "''/dev/video2''" example_cache] h
  have "\<exists>cm cf' evs. build_camera_map example_env example_cache = Inr (cm, cf', evs)
           \<and> (\<forall>c. cf' = Holds c \<longrightarrow> dict_contains c ''/dev/video2'')"
    by blast
  then have "dict_contains [(''/dev/video2'', ''1-3:1.0''), (''/dev/video0'', ''1-2:1.0'')]
      ''/dev/video2''"
    unfolding example_build by simp
  with h show ?thesis by simp
qed

text \<open>
  Claim C10. \<^verbatim>\<open>build_camera_map\<close> calls \<^verbatim>\<open>save_cache\<close> at most once. If every
  freshly detected bus id of a configured path equals the value cached at the start,
  \<^verbatim>\<open>save_cache\<close> is not called and the cache file is as before; and when it is called,
  some configured path has a fresh bus id that differs from the cached value.
\<close>

theorem save_only_on_change:
  "\<exists>cm cf' evs. build_camera_map env cf = Inr (cm, cf', evs)
     \<and> length (filter is_save evs) \<le> 1
     \<and> ((\<forall>d \<in> set (fst (parse_camera_devices env)).
            \<forall>b. detected env d = Some b \<longrightarrow> dict_get (fst (load_cache cf)) d = Some b)
          \<longrightarrow> filter is_save evs = [] \<and> cf' = cf)
     \<and> (filter is_save evs \<noteq> []
          \<longrightarrow> (\<exists>d \<in> set (fst (parse_camera_devices env)).
                 \<exists>b. detected env d = Some b \<and> dict_get (fst (load_cache cf)) d \<noteq> Some b))"
proof -
  obtain st evs_r where
    r: "resolve_all env (fst (parse_camera_devices env))
       \<lparr>camera_map = [], cache = fst (load_cache cf), cache_updated = False\<rparr> = Inr (st, evs_r)"
    and bd: "build_camera_map env cf =
       Inr (camera_map st,
            if cache_updated st then fst (save_cache env (cache st) cf) else cf,
            snd (parse_camera_devices env) @ snd (load_cache cf) @ evs_r
              @ (if cache_updated st then snd (save_cache env (cache st) cf) else []))"
    by (rule build_camera_map_unfold)
  have logs: "filter is_save evs_r = []"
    using resolve_all_events[OF r] logs_no_save by blast
  have up: "cache_updated st \<longleftrightarrow>
      (\<exists>d \<in> set (fst (parse_camera_devices env)).
         \<exists>b. detected env d = Some b \<and> dict_get (fst (load_cache cf)) d \<noteq> Some b)"
    unfolding resolve_all_updated[OF r] by fastforce
  let ?evs = "snd (parse_camera_devices env) @ snd (load_cache cf) @ evs_r
              @ (if cache_updated st then snd (save_cache env (cache st) cf) else [])"
  have sv: "filter is_save ?evs = (if cache_updated st then [SaveCache (cache st)] else [])"
    using logs by (simp add: parse_load_events save_cache_events)
  have 1: "length (filter is_save ?evs) \<le> 1" unfolding sv by simp
  have 2: "(\<forall>d \<in> set (fst (parse_camera_devices env)).
            \<forall>b. detected env d = Some b \<longrightarrow> dict_get (fst (load_cache cf)) d = Some b)
          \<longrightarrow> filter is_save ?evs = []
              \<and> (if cache_updated st then fst (save_cache env (cache st) cf) else cf) = cf"
    unfolding sv using up by auto
  have 3: "filter is_save ?evs \<noteq> []
          \<longrightarrow> (\<exists>d \<in> set (fst (parse_camera_devices env)).
                 \<exists>b. detected env d = Some b \<and> dict_get (fst (load_cache cf)) d \<noteq> Some b)"
    unfolding sv using up by auto
  show ?thesis unfolding bd using 1 2 3 by blast
qed

theorem save_only_on_change_witness:
  "fst (parse_camera_devices undetectable_env) = [''/dev/video0'', ''/dev/video2'']
   \<and> detected undetectable_env ''/dev/video0'' = None
   \<and> detected undetectable_env ''/dev/video2'' = None
   \<and> filter is_save
        [Log INFO (MsgFound [''/dev/video0'', ''/dev/video2'']),
         Log ERROR (MsgErrorGettingBusId ''/dev/video0'' (CalledProcessError 1)),
         Log WARNING (MsgCouldNotDetect ''/dev/video0''),
         Log WARNING (MsgNoCache ''/dev/video2'')] = []"
proof -
  have p: "fst (parse_camera_devices undetectable_env) = [''/dev/video0'', ''/dev/video2'']"
    by (simp add: model_defs example_defs)
  have d: "detected undetectable_env ''/dev/video0'' = None"
    "detected undetectable_env ''/dev/video2'' = None"
    by (simp_all add: model_defs example_defs)
  have h: "\<forall>d \<in> set (fst (parse_camera_devices undetectable_env)).
      \<forall>b. detected undetectable_env d = Some b
         \<longrightarrow> dict_get (fst (load_cache stale_cache)) d = Some b"
    unfolding p using d by simp
  from save_only_on_change[of undetectable_env stale_cache] h
  have "\<exists>cm cf' evs. build_camera_map undetectable_env stale_cache = Inr (cm, cf', evs)
     \<and> filter is_save evs = [] \<and> cf' = stale_cache"
    by blast
  then have "filter is_save
        [Log INFO (MsgFound [''/dev/video0'', ''/dev/video2'']),
         Log ERROR (MsgErrorGettingBusId ''/dev/video0'' (CalledProcessError 1)),
         Log WARNING (MsgCouldNotDetect ''/dev/video0''),
         Log WARNING (MsgNoCache ''/dev/video2'')] = []"
    unfolding undetectable_build by blast
  with p d show ?thesis by blast
qed


section \<open>Properties of the configuration reader\<close>

lemma re_matches_map_Chr:
  "re_matches (map Chr lit @ ps) m \<longleftrightarrow> (\<exists>m'. m = lit @ m' \<and> re_matches ps m')"
  by (induction lit arbitrary: m) auto

lemma re_matches_DEVICE_RE:
  "re_matches DEVICE_RE m \<longleftrightarrow> (\<exists>p. m = ''device='' @ p \<and> p \<noteq> [] \<and> list_all path_char p)"
proof -
  have "list_all (\<lambda>c. \<not> is_space c \<and> c \<noteq> CHR ''!'') p = list_all path_char p" for p
    by (simp add: path_char_def[abs_def])
  then show ?thesis
    unfolding DEVICE_RE_def re_matches_map_Chr by auto
qed

lemma deterministic_DEVICE_RE: "deterministic DEVICE_RE"
  by (simp add: DEVICE_RE_def)

lemma extract_device_token:
  assumes "extract_device val = Some p"
  shows "device_token val p"
proof -
  from assms obtain m where m: "re_search DEVICE_RE val = Some m" and p: "p = device_group1 m"
    by (auto simp: extract_device_def)
  from re_search_Some[OF m] obtain pre post where
    v: "val = pre @ m @ post" and mh: "match_here DEVICE_RE (m @ post) = Some m" and
    left: "\<forall>pre' m' post'. val = pre' @ m' @ post' \<and> re_matches DEVICE_RE m'
             \<longrightarrow> length pre \<le> length pre'"
    by blast
  from match_here_sound[OF mh] obtain q where
    q: "m = ''device='' @ q" "q \<noteq> []" "list_all path_char q"
    unfolding re_matches_DEVICE_RE by blast
  have pq: "p = q" using p q by (simp add: device_group1_def)
  have stop: "post = [] \<or> \<not> path_char (hd post)"
  proof (rule ccontr)
    assume "\<not> (post = [] \<or> \<not> path_char (hd post))"
    then obtain c r where post: "post = c # r" and c: "path_char c" by (cases post) auto
    have "re_matches DEVICE_RE (''device='' @ (q @ [c]))"
      unfolding re_matches_DEVICE_RE using q c by auto
    moreover have "match_here DEVICE_RE ((''device='' @ (q @ [c])) @ r) = Some m"
      using mh q post by simp
    ultimately have "length (''device='' @ (q @ [c])) \<le> length m"
      using match_here_longest[OF deterministic_DEVICE_RE] by blast
    then show False using q by simp
  qed
  have first: "\<forall>pre' c post'. val = pre' @ ''device='' @ c # post' \<and> path_char c
              \<longrightarrow> length pre \<le> length pre'"
  proof (intro allI impI)
    fix pre' c post' assume a: "val = pre' @ ''device='' @ c # post' \<and> path_char c"
    then have "re_matches DEVICE_RE (''device='' @ [c])"
      unfolding re_matches_DEVICE_RE by auto
    moreover have "val = pre' @ (''device='' @ [c]) @ post'" using a by simp
    ultimately show "length pre \<le> length pre'" using left by blast
  qed
  show ?thesis
    unfolding device_token_def using v q pq stop first by auto
qed

lemma takeWhile_run:
  "list_all P p \<Longrightarrow> post = [] \<or> \<not> P (hd post) \<Longrightarrow> takeWhile P (p @ post) = p"
  by (induction p) (auto simp: takeWhile_eq_Nil_iff neq_Nil_conv)

lemma device_token_unique:
  assumes "device_token val p" and "device_token val p'"
  shows "p = p'"
proof -
  from assms(1) obtain pre post where
    1: "val = pre @ ''device='' @ p @ post" "p \<noteq> []" "list_all path_char p"
       "post = [] \<or> \<not> path_char (hd post)"
       "\<forall>pre' c post'. val = pre' @ ''device='' @ c # post' \<and> path_char c
              \<longrightarrow> length pre \<le> length pre'"
    unfolding device_token_def by blast
  from assms(2) obtain pre2 post2 where
    2: "val = pre2 @ ''device='' @ p' @ post2" "p' \<noteq> []" "list_all path_char p'"
       "post2 = [] \<or> \<not> path_char (hd post2)"
       "\<forall>pre' c post'. val = pre' @ ''device='' @ c # post' \<and> path_char c
              \<longrightarrow> length pre2 \<le> length pre'"
    unfolding device_token_def by blast
  obtain c r where p: "p = c # r" "path_char c" using 1(2,3) by (cases p) auto
  obtain c2 r2 where p2: "p' = c2 # r2" "path_char c2" using 2(2,3) by (cases p') auto
  have "val = pre @ ''device='' @ c # (r @ post)" using 1(1) p by simp
  then have a: "length pre2 \<le> length pre" using 2(5) p(2) by blast
  have "val = pre2 @ ''device='' @ c2 # (r2 @ post2)" using 2(1) p2 by simp
  then have b: "length pre \<le> length pre2" using 1(5) p2(2) by blast
  have "pre @ (''device='' @ p @ post) = pre2 @ (''device='' @ p' @ post2)"
    using 1(1) 2(1) by simp
  then have "p @ post = p' @ post2" using a b by simp
  then have "takeWhile path_char (p @ post) = takeWhile path_char (p' @ post2)" by simp
  then show ?thesis
    using takeWhile_run[OF 1(3) 1(4)] takeWhile_run[OF 2(3) 2(4)] by simp
qed

lemma extract_device_iff: "extract_device val = Some p \<longleftrightarrow> device_token val p"
proof
  assume "extract_device val = Some p"
  then show "device_token val p" by (rule extract_device_token)
next
  assume t: "device_token val p"
  then obtain pre post where
    1: "val = pre @ ''device='' @ p @ post" "p \<noteq> []" "list_all path_char p"
    unfolding device_token_def by blast
  have "re_matches DEVICE_RE (''device='' @ p)"
    unfolding re_matches_DEVICE_RE using 1 by blast
  moreover have "val = pre @ (''device='' @ p) @ post" using 1(1) by simp
  ultimately have "re_search DEVICE_RE val \<noteq> None"
    unfolding re_search_None by blast
  then obtain p' where e: "extract_device val = Some p'"
    by (auto simp: extract_device_def)
  from device_token_unique[OF extract_device_token[OF e] t] e
  show "extract_device val = Some p" by simp
qed

lemma scan_items_ok:
  "\<forall>k e. (k, Inl e) \<notin> set items \<Longrightarrow>
   scan_items items devices = Inr (devices @ configured_paths items)"
proof (induction items arbitrary: devices)
  case Nil
  show ?case by (simp add: configured_paths_def)
next
  case (Cons it items)
  obtain key v where it: "it = (key, v)" by (cases it)
  with Cons.prems obtain val where v: "v = Inr val" by (cases v) auto
  have rest: "\<forall>k e. (k, Inl e) \<notin> set items" using Cons.prems by auto
  have cp: "configured_paths (it # items) =
      (if startswith key ''camera''
       then (case extract_device val of Some p \<Rightarrow> [p] | None \<Rightarrow> []) else [])
      @ configured_paths items"
    by (simp add: configured_paths_def it v)
  show ?case
    unfolding cp using Cons.IH[OF rest] it v
    by (auto simp: extract_device_def split: option.splits)
qed

lemma scan_items_fail:
  "(k, Inl e) \<in> set items \<Longrightarrow> \<exists>e'. scan_items items devices = Inl e'"
proof (induction items arbitrary: devices)
  case Nil
  then show ?case by simp
next
  case (Cons it items)
  obtain key v where it: "it = (key, v)" by (cases it)
  show ?case
  proof (cases v)
    case (Inl e0)
    then show ?thesis using it by simp
  next
    case (Inr val)
    then have "(k, Inl e) \<in> set items" using Cons.prems it by auto
    from Cons.IH[OF this] show ?thesis using it Inr
      by (auto split: option.splits)
  qed
qed

text \<open>
  Claim C5. The reader returns, in order, the paths configured by the items of the plugin
  section whose key starts with \<^verbatim>\<open>camera\<close>; an item whose value has no device token
  adds nothing. The path taken from a value is the text after the first \<^verbatim>\<open>device=\<close>
  that is followed by a path character, up to the next white space or \<^verbatim>\<open>!\<close> or the
  end of the value. When the file cannot be parsed, when it has no plugin section or when
  reading the value of an item raises, the reader returns the empty list.
\<close>

theorem parse_camera_devices_paths:
  "fst (parse_camera_devices env) =
     (case ini env of
        Inl e \<Rightarrow> []
      | Inr config \<Rightarrow>
          (case map_of config ''plugin'' of
             None \<Rightarrow> []
           | Some items \<Rightarrow>
               if (\<exists>k e. (k, Inl e) \<in> set items) then [] else configured_paths items))
   \<and> (\<forall>val p. extract_device val = Some p \<longleftrightarrow> device_token val p)"
proof (intro conjI allI)
  show "fst (parse_camera_devices env) =
     (case ini env of
        Inl e \<Rightarrow> []
      | Inr config \<Rightarrow>
          (case map_of config ''plugin'' of
             None \<Rightarrow> []
           | Some items \<Rightarrow>
               if (\<exists>k e. (k, Inl e) \<in> set items) then [] else configured_paths items))"
  proof (cases "ini env")
    case (Inl e)
    then show ?thesis
      by (simp add: parse_camera_devices_def parse_camera_devices_try_def)
  next
    case (Inr config)
    show ?thesis
    proof (cases "map_of config ''plugin''")
      case None
      then show ?thesis using Inr
        by (simp add: parse_camera_devices_def parse_camera_devices_try_def)
    next
      case (Some items)
      show ?thesis
      proof (cases "\<exists>k e. (k, Inl e) \<in> set items")
        case True
        then obtain e' where "scan_items items [] = Inl e'"
          using scan_items_fail by blast
        then show ?thesis using Inr Some True
          by (simp add: parse_camera_devices_def parse_camera_devices_try_def)
      next
        case False
        then have "scan_items items [] = Inr ([] @ configured_paths items)"
          using scan_items_ok by blast
        then show ?thesis using Inr Some False
          by (simp add: parse_camera_devices_def parse_camera_devices_try_def)
      qed
    qed
  qed
next
  fix val p
  show "extract_device val = Some p \<longleftrightarrow> device_token val p"
    by (rule extract_device_iff)
qed

theorem parse_camera_devices_paths_witness:
  "fst (parse_camera_devices example_env) = [''/dev/video0'', ''/dev/video2'']
   \<and> device_token ''v4l2src device=/dev/video0 ! videoconvert'' ''/dev/video0''
   \<and> extract_device ''videotestsrc'' = None
   \<and> fst (parse_camera_devices broken_ini_env) = []"
proof -
  note t = parse_camera_devices_paths
  have e: "extract_device ''v4l2src device=/dev/video0 ! videoconvert'' = Some ''/dev/video0''"
    "extract_device ''v4l2src device=/dev/video2 ! videoconvert'' = Some ''/dev/video2''"
    "extract_device ''videotestsrc'' = None"
    by (simp_all add: extract_device_def model_defs)
  have c: "configured_paths (snd (hd example_ini)) = [''/dev/video0'', ''/dev/video2'']"
    by (simp add: configured_paths_def example_ini_def e startswith_def)
  have a: "fst (parse_camera_devices example_env) = [''/dev/video0'', ''/dev/video2'']"
    using t[of example_env] c by (simp add: example_env_def example_ini_def)
  have b: "device_token ''v4l2src device=/dev/video0 ! videoconvert'' ''/dev/video0''"
    using t[of example_env] e(1) by blast
  have d: "fst (parse_camera_devices broken_ini_env) = []"
    using t[of broken_ini_env] by (simp add: broken_ini_env_def)
  show ?thesis using a b e(3) d by simp
qed

section \<open>Properties of the recovery actuator and of the watchdog loop\<close>

lemma rebind_device_spawned:
  "spawns env (unbind_cmd bus_id) \<Longrightarrow> spawns env (bind_cmd bus_id) \<Longrightarrow>
   rebind_device env bus_id =
     Inr (True,
          [Log INFO (MsgRebinding bus_id), Shell (unbind_cmd bus_id), Sleep 2,
           Shell (bind_cmd bus_id), Sleep 3, Log INFO (MsgDoneRebinding bus_id)])"
  by (simp add: rebind_device_def rebind_device_try_def subprocess_run_shell_def spawns_def)

text \<open>
  Claim C6, where the code differs. Both shell commands fail with status 1, as they do
  when \<^verbatim>\<open>sudo tee\<close> has no permission: \<^verbatim>\<open>rebind_device\<close> runs the unbind command,
  sleeps 2 seconds, runs the bind command, sleeps 3 seconds, logs that it is done and
  returns \<^verbatim>\<open>True\<close>; no error is logged. Both calls pass \<^verbatim>\<open>check=False\<close>, so the handler
  that logs the error and returns \<^verbatim>\<open>False\<close> is never reached.
\<close>

theorem rebind_device_denied:
  "sh denied_env (unbind_cmd ''1-3:1.0'') = 1
   \<and> sh denied_env (bind_cmd ''1-3:1.0'') = 1
   \<and> rebind_device denied_env ''1-3:1.0'' =
       Inr (True,
            [Log INFO (MsgRebinding ''1-3:1.0''), Shell (unbind_cmd ''1-3:1.0''), Sleep 2,
             Shell (bind_cmd ''1-3:1.0''), Sleep 3, Log INFO (MsgDoneRebinding ''1-3:1.0'')])"
  by (simp add: rebind_device_def rebind_device_try_def subprocess_run_shell_def
        denied_env_def example_env_def unbind_cmd_def bind_cmd_def)

lemma poll_devices_spawned:
  "\<forall>(dev, bus_id) \<in> set cm. spawns env (unbind_cmd bus_id) \<and> spawns env (bind_cmd bus_id)
   \<Longrightarrow> \<exists>evs. poll_devices env cm = Inr evs"
proof (induction cm)
  case Nil
  show ?case by simp
next
  case (Cons a cm)
  obtain dev bus_id where a: "a = (dev, bus_id)" by (cases a)
  from Cons.prems a have sp: "spawns env (unbind_cmd bus_id)" "spawns env (bind_cmd bus_id)"
    by auto
  from Cons.prems have "\<forall>(dev, bus_id) \<in> set cm.
      spawns env (unbind_cmd bus_id) \<and> spawns env (bind_cmd bus_id)"
    by simp
  from Cons.IH[OF this] obtain evs where "poll_devices env cm = Inr evs" by blast
  then show ?case using a device_exists_cases[of env dev]
    by (auto simp: rebind_device_spawned[OF sp])
qed

lemma poll_loop_running:
  "\<forall>env \<in> set envs. \<forall>(dev, bus_id) \<in> set cm.
      spawns env (unbind_cmd bus_id) \<and> spawns env (bind_cmd bus_id)
   \<Longrightarrow> fst (poll_loop envs cm) = None"
proof (induction envs)
  case Nil
  show ?case by simp
next
  case (Cons env envs)
  from Cons.prems have "\<forall>(dev, bus_id) \<in> set cm.
      spawns env (unbind_cmd bus_id) \<and> spawns env (bind_cmd bus_id)"
    by simp
  then obtain evs where p: "poll_devices env cm = Inr evs"
    using poll_devices_spawned by blast
  from Cons.prems have "\<forall>env \<in> set envs. \<forall>(dev, bus_id) \<in> set cm.
      spawns env (unbind_cmd bus_id) \<and> spawns env (bind_cmd bus_id)"
    by simp
  from Cons.IH[OF this] p show ?case by (cases "poll_loop envs cm") simp
qed

lemma build_camera_map_no_poll_action:
  "build_camera_map env cf = Inr (cm, cf', evs) \<Longrightarrow> filter poll_action evs = []"
proof -
  assume a: "build_camera_map env cf = Inr (cm, cf', evs)"
  obtain st evs_r where
    r: "resolve_all env (fst (parse_camera_devices env))
       \<lparr>camera_map = [], cache = fst (load_cache cf), cache_updated = False\<rparr> = Inr (st, evs_r)"
    and bd: "build_camera_map env cf =
       Inr (camera_map st,
            if cache_updated st then fst (save_cache env (cache st) cf) else cf,
            snd (parse_camera_devices env) @ snd (load_cache cf) @ evs_r
              @ (if cache_updated st then snd (save_cache env (cache st) cf) else []))"
    by (rule build_camera_map_unfold)
  have "filter poll_action evs_r = []"
    using resolve_all_events[OF r] logs_no_poll_action by blast
  then show ?thesis using a unfolding bd
    by (auto simp: parse_load_events save_cache_events)
qed

lemma build_camera_map_none_configured:
  assumes "build_camera_map env cf = Inr (cm, cf', evs)"
    and "fst (parse_camera_devices env) = []"
  shows "cm = []"
proof -
  obtain st evs_r where
    r: "resolve_all env (fst (parse_camera_devices env))
       \<lparr>camera_map = [], cache = fst (load_cache cf), cache_updated = False\<rparr> = Inr (st, evs_r)"
    and bd: "build_camera_map env cf =
       Inr (camera_map st,
            if cache_updated st then fst (save_cache env (cache st) cf) else cf,
            snd (parse_camera_devices env) @ snd (load_cache cf) @ evs_r
              @ (if cache_updated st then snd (save_cache env (cache st) cf) else []))"
    by (rule build_camera_map_unfold)
  from r assms(2) have "camera_map st = []" by auto
  then show ?thesis using assms(1) bd by simp
qed

lemma main_monitoring:
  assumes "''--test'' \<notin> set argv" and "setup_logging env = Inr ()"
    and "build_camera_map env cf = Inr (cm, cf', evs)"
  shows "main env envs argv cf =
     (if cm = []
      then (Some (Inr ()), cf', Log INFO MsgStarted # evs @ [Log ERROR MsgNoCameras])
      else (map_option Inl (fst (poll_loop envs cm)), cf',
            Log INFO MsgStarted # evs @ [Log INFO (MsgMonitoring (map fst cm))]
              @ snd (poll_loop envs cm)))"
  using assms by (cases "poll_loop envs cm") (simp add: main_def)

text \<open>
  Claim C8, as amended. In monitoring mode (no \<^verbatim>\<open>--test\<close> on the command line),
  \<^verbatim>\<open>main\<close> returns exactly when the log file could be opened and \<^verbatim>\<open>build_camera_map\<close>
  gave an empty camera map. When the log file cannot be opened, \<^verbatim>\<open>main\<close> ends with
  that exception before anything else. When it can and \<^verbatim>\<open>build_camera_map\<close> gives a
  map: the map is empty if no device is configured; with an empty map \<^verbatim>\<open>main\<close> logs the
  error and returns, whatever poll cycles could follow, and it has run no shell command
  and has not slept; with a map that is not empty \<^verbatim>\<open>main\<close> is still running after any
  number of poll cycles in which the rebind commands of the mapped devices can be run.
\<close>

theorem main_returns_iff_no_cameras:
  assumes "''--test'' \<notin> set argv"
  shows "(fst (main env envs argv cf) = Some (Inr ()) \<longleftrightarrow>
            setup_logging env = Inr ()
            \<and> (case build_camera_map env cf of
                  Inr (cm, cf', evs) \<Rightarrow> cm = []
                | Inl e \<Rightarrow> False))
     \<and> (\<forall>e. setup_logging env = Inl e \<longrightarrow> main env envs argv cf = (Some (Inl e), cf, []))
     \<and> (\<forall>cm cf' evs.
           setup_logging env = Inr () \<and> build_camera_map env cf = Inr (cm, cf', evs) \<longrightarrow>
             (fst (parse_camera_devices env) = [] \<longrightarrow> cm = [])
             \<and> (cm = [] \<longrightarrow>
                  main env envs argv cf =
                    (Some (Inr ()), cf', Log INFO MsgStarted # evs @ [Log ERROR MsgNoCameras])
                  \<and> filter poll_action
                       (Log INFO MsgStarted # evs @ [Log ERROR MsgNoCameras]) = [])
             \<and> (cm \<noteq> []
                  \<and> (\<forall>env' \<in> set envs. \<forall>(dev, bus_id) \<in> set cm.
                         spawns env' (unbind_cmd bus_id) \<and> spawns env' (bind_cmd bus_id))
                  \<longrightarrow> fst (main env envs argv cf) = None))"
proof (intro conjI allI impI)
  show "fst (main env envs argv cf) = Some (Inr ()) \<longleftrightarrow>
            setup_logging env = Inr ()
            \<and> (case build_camera_map env cf of
                  Inr (cm, cf', evs) \<Rightarrow> cm = []
                | Inl e \<Rightarrow> False)"
  proof (cases "setup_logging env")
    case (Inl e)
    then show ?thesis by (simp add: main_def)
  next
    case (Inr u)
    show ?thesis
    proof (cases "build_camera_map env cf")
      case (Inl e)
      then show ?thesis using Inr assms by (simp add: main_def)
    next
      case b: (Inr r)
      obtain cm cf' evs where r: "r = (cm, cf', evs)" by (cases r)
      have "setup_logging env = Inr ()" using Inr by simp
      from main_monitoring[OF assms this, of cf cm cf' evs envs] b r
      show ?thesis using Inr by (cases "fst (poll_loop envs cm)") auto
    qed
  qed
next
  fix e assume "setup_logging env = Inl e"
  then show "main env envs argv cf = (Some (Inl e), cf, [])"
    by (simp add: main_def)
next
  fix cm cf' evs
  assume h: "setup_logging env = Inr () \<and> build_camera_map env cf = Inr (cm, cf', evs)"
  assume "fst (parse_camera_devices env) = []"
  with h show "cm = []" using build_camera_map_none_configured by blast
next
  fix cm cf' evs
  assume h: "setup_logging env = Inr () \<and> build_camera_map env cf = Inr (cm, cf', evs)"
  assume "cm = []"
  with h show "main env envs argv cf =
      (Some (Inr ()), cf', Log INFO MsgStarted # evs @ [Log ERROR MsgNoCameras])"
    using main_monitoring[OF assms, of env cf cm cf' evs envs] by simp
next
  fix cm cf' evs
  assume h: "setup_logging env = Inr () \<and> build_camera_map env cf = Inr (cm, cf', evs)"
  then have "filter poll_action evs = []"
    using build_camera_map_no_poll_action by blast
  then show "filter poll_action (Log INFO MsgStarted # evs @ [Log ERROR MsgNoCameras]) = []"
    by simp
next
  fix cm cf' evs
  assume h: "setup_logging env = Inr () \<and> build_camera_map env cf = Inr (cm, cf', evs)"
  assume c: "cm \<noteq> []
      \<and> (\<forall>env' \<in> set envs. \<forall>(dev, bus_id) \<in> set cm.
             spawns env' (unbind_cmd bus_id) \<and> spawns env' (bind_cmd bus_id))"
  then have "fst (poll_loop envs cm) = None" using poll_loop_running by blast
  with h c show "fst (main env envs argv cf) = None"
    using main_monitoring[OF assms, of env cf cm cf' evs envs] by simp
qed

lemma broken_ini_build:
  "build_camera_map broken_ini_env example_cache =
     Inr ([], example_cache, [Log ERROR (MsgErrorParsing ConfigParserError)])"
  by (simp add: model_defs example_defs)

lemma no_log_build:
  "build_camera_map no_log_env example_cache =
     Inr ([(''/dev/video0'', ''1-2:1.0''), (''/dev/video2'', ''1-3:1.0'')],
          Holds [(''/dev/video2'', ''1-3:1.0''), (''/dev/video0'', ''1-2:1.0'')],
          [Log INFO (MsgFound [''/dev/video0'', ''/dev/video2'']),
           Log INFO (MsgMapped ''/dev/video0'' ''1-2:1.0''),
           Log INFO (MsgFromCache ''/dev/video2'' ''1-3:1.0''),
           SaveCache [(''/dev/video2'', ''1-3:1.0''), (''/dev/video0'', ''1-2:1.0'')]])"
  by (simp add: model_defs example_defs no_log_env_def)

lemma example_spawns:
  "spawns example_env (unbind_cmd ''1-2:1.0'')" "spawns example_env (bind_cmd ''1-2:1.0'')"
  "spawns example_env (unbind_cmd ''1-3:1.0'')" "spawns example_env (bind_cmd ''1-3:1.0'')"
  by (simp_all add: spawns_def unbind_cmd_def bind_cmd_def example_env_def)

theorem main_returns_iff_no_cameras_witness:
  "''--test'' \<notin> set []
   \<and> setup_logging broken_ini_env = Inr ()
   \<and> main broken_ini_env [example_env] [] example_cache =
       (Some (Inr ()), example_cache,
        [Log INFO MsgStarted, Log ERROR (MsgErrorParsing ConfigParserError),
         Log ERROR MsgNoCameras])
   \<and> setup_logging example_env = Inr ()
   \<and> fst (main example_env [example_env, example_env] [] example_cache) = None
   \<and> setup_logging no_log_env = Inl (OSError PermissionError)
   \<and> main no_log_env [example_env] [] example_cache =
       (Some (Inl (OSError PermissionError)), example_cache, [])"
proof -
  have h: "''--test'' \<notin> set []" by simp
  note t = main_returns_iff_no_cameras[OF h]
  have s1: "setup_logging broken_ini_env = Inr ()"
    by (simp add: setup_logging_def example_defs)
  have s2: "setup_logging example_env = Inr ()"
    by (simp add: setup_logging_def example_defs)
  have s3: "setup_logging no_log_env = Inl (OSError PermissionError)"
    by (simp add: setup_logging_def no_log_env_def)
  from t[of broken_ini_env "[example_env]" example_cache] s1 broken_ini_build
  have a: "main broken_ini_env [example_env] [] example_cache =
       (Some (Inr ()), example_cache,
        [Log INFO MsgStarted, Log ERROR (MsgErrorParsing ConfigParserError),
         Log ERROR MsgNoCameras])"
    by simp
  have sp: "\<forall>env' \<in> set [example_env, example_env].
      \<forall>(dev, bus_id) \<in> set [(''/dev/video0'', ''1-2:1.0''), (''/dev/video2'', ''1-3:1.0'')].
         spawns env' (unbind_cmd bus_id) \<and> spawns env' (bind_cmd bus_id)"
    using example_spawns by simp
  from t[of example_env "[example_env, example_env]" example_cache] s2 example_build sp
  have b: "fst (main example_env [example_env, example_env] [] example_cache) = None"
    by blast
  from t[of no_log_env "[example_env]" example_cache] s3
  have c: "main no_log_env [example_env] [] example_cache =
       (Some (Inl (OSError PermissionError)), example_cache, [])"
    by blast
  show ?thesis using h s1 a s2 b s3 c by simp
qed

text \<open>
  That the empty camera map is the only fatal condition, as the specification words it,
  fails. The camera map has two entries, yet \<^verbatim>\<open>main\<close> ends with an exception: before
  anything is logged when the log file cannot be opened, and in the first poll cycle
  when no shell can be started for the unbind command of the missing device.
\<close>

theorem main_only_fatal_counterexample:
  "\<not> only_fatal_as_specified no_log_env [] example_cache
   \<and> \<not> only_fatal_as_specified example_env [no_shell_env] example_cache"
proof -
  have a: "fst (main no_log_env [] [] example_cache) = Some (Inl (OSError PermissionError))"
    by (simp add: main_def setup_logging_def no_log_env_def)
  have d: "device_exists no_shell_env ''/dev/video0'' = Inr True"
    "device_exists no_shell_env ''/dev/video2'' = Inr False"
    by (simp_all add: model_defs example_defs no_shell_env_def)
  have r: "rebind_device no_shell_env ''1-3:1.0'' = Inl (OSError OtherOSError)"
    by (simp add: rebind_device_def rebind_device_try_def subprocess_run_shell_def
          unbind_cmd_def no_shell_env_def example_env_def)
  have h: "''--test'' \<notin> set []" by simp
  have s: "setup_logging example_env = Inr ()"
    by (simp add: setup_logging_def example_env_def)
  have b: "fst (main example_env [no_shell_env] [] example_cache)
      = Some (Inl (OSError OtherOSError))"
    unfolding main_monitoring[OF h s example_build] by (simp add: d r)
  show ?thesis
    unfolding only_fatal_as_specified_def using a b
    by (simp add: no_log_build example_build)
qed

end
